theory Spec2Isabelle
  imports Complex_Main "HOL-Library.Log_Nat" "HOL-Library.Word"
begin

section \<open>Errors\<close>

text \<open>
  The script \<^verbatim>\<open>scripts/stolas_apr.py\<close> signals every failure by an exception. Each
  exception is a value of \<open>error\<close>; the three \<^verbatim>\<open>RuntimeError\<close>s of the script are told
  apart by the message they carry:
  \<^item> \<open>TotalSupplyZero n\<close>: \<^verbatim>\<open>RuntimeError("totalSupply == 0 at block n, PPS undefined")\<close>;
  \<^item> \<open>PpsPastZero\<close>: \<^verbatim>\<open>RuntimeError("pps_past == 0, APR cannot be computed")\<close>;
  \<^item> \<open>NonPositiveInterval\<close>: \<^verbatim>\<open>RuntimeError("Non-positive time interval between blocks")\<close>;
  \<^item> \<open>Web3Error\<close>: whatever a call into the \<^verbatim>\<open>web3\<close> library raises;
  \<^item> \<open>TimestampOutOfRange\<close>: the exception of \<^verbatim>\<open>datetime.fromtimestamp\<close> on a timestamp
    outside the years 1 to 9999;
  \<^item> \<open>ZeroDivisionError\<close>, \<open>OverflowError\<close>: raised by Python's operator \<^verbatim>\<open>/\<close>;
  \<^item> \<open>SystemExit c\<close>: \<^verbatim>\<open>sys.exit(c)\<close>.
\<close>

datatype error =
    TotalSupplyZero int
  | PpsPastZero
  | NonPositiveInterval
  | Web3Error
  | TimestampOutOfRange
  | ZeroDivisionError
  | OverflowError
  | SystemExit int

section \<open>Python floats\<close>

text \<open>
  A Python \<^verbatim>\<open>float\<close> is an IEEE 754 binary64 number: a finite value (a rational with a
  53-bit significand and an exponent between \<open>-1022\<close> and \<open>1023\<close>), an infinity or a
  NaN. The two zeros are one value here: the script divides by no zero (Python raises
  for either) and compares with \<^verbatim>\<open>==\<close>, which does not tell them apart.
\<close>

datatype pyfloat = Fin rat | PInf | NInf | NaN

text \<open>\<^verbatim>\<open>int.bit_length\<close> on a positive integer: the number of its binary digits.\<close>

function bit_length :: "int \<Rightarrow> int" where
  "bit_length n = (if n \<le> 0 then 0 else 1 + bit_length (n div 2))"
  by pat_completeness auto
termination
  by (relation "measure nat") auto

declare bit_length.simps [simp del]

text \<open>The exponent of a positive rational: \<open>2 powi ilog2 a \<le> a < 2 powi (ilog2 a + 1)\<close>.\<close>

definition ilog2 :: "rat \<Rightarrow> int" where
  "ilog2 a = (if 1 \<le> a then bit_length \<lfloor>a\<rfloor> - 1 else - bit_length (\<lceil>1 / a\<rceil> - 1))"

definition round_half_even :: "rat \<Rightarrow> int" where
  "round_half_even x =
     (let f = \<lfloor>x\<rfloor>; r = x - of_int f
      in if r < 1 / 2 then f
         else if 1 / 2 < r then f + 1
         else if even f then f else f + 1)"

text \<open>
  Rounding of an exact value to binary64, to nearest with ties to even: the unit in the
  last place is \<open>2 powi (e - 52)\<close> for the exponent \<open>e\<close> of the value, and \<open>2 powi (-1074)\<close>
  below the normal range; a rounded magnitude of \<open>2 powi 1024\<close> or more is an infinity.
\<close>

definition round_double :: "rat \<Rightarrow> pyfloat" where
  "round_double q =
     (if q = 0 then Fin 0
      else
        (let a = \<bar>q\<bar>;
             e = max (ilog2 a) (- 1022);
             u = 2 powi (e - 52);
             r = of_int (round_half_even (a / u)) * u
         in if 2 powi 1024 \<le> r then (if 0 < q then PInf else NInf)
            else Fin (if 0 < q then r else - r)))"

definition is_zero :: "pyfloat \<Rightarrow> bool" where
  "is_zero x \<longleftrightarrow> x = Fin 0"

definition is_negative :: "pyfloat \<Rightarrow> bool" where
  "is_negative x = (case x of Fin a \<Rightarrow> a < 0 | NInf \<Rightarrow> True | _ \<Rightarrow> False)"

definition is_positive :: "pyfloat \<Rightarrow> bool" where
  "is_positive x = (case x of Fin a \<Rightarrow> 0 < a | PInf \<Rightarrow> True | _ \<Rightarrow> False)"

text \<open>The IEEE operations \<open>x - y\<close>, \<open>x * y\<close> and \<open>x / y\<close> on binary64 values.\<close>

definition fsub :: "pyfloat \<Rightarrow> pyfloat \<Rightarrow> pyfloat" where
  "fsub x y =
     (case (x, y) of
        (Fin a, Fin b) \<Rightarrow> round_double (a - b)
      | (NaN, _) \<Rightarrow> NaN
      | (_, NaN) \<Rightarrow> NaN
      | (PInf, PInf) \<Rightarrow> NaN
      | (NInf, NInf) \<Rightarrow> NaN
      | (PInf, _) \<Rightarrow> PInf
      | (NInf, _) \<Rightarrow> NInf
      | (_, PInf) \<Rightarrow> NInf
      | (_, NInf) \<Rightarrow> PInf)"

definition fmul :: "pyfloat \<Rightarrow> pyfloat \<Rightarrow> pyfloat" where
  "fmul x y =
     (case (x, y) of
        (Fin a, Fin b) \<Rightarrow> round_double (a * b)
      | (NaN, _) \<Rightarrow> NaN
      | (_, NaN) \<Rightarrow> NaN
      | _ \<Rightarrow> if is_zero x \<or> is_zero y then NaN
             else if is_negative x = is_negative y then PInf else NInf)"

definition fdiv :: "pyfloat \<Rightarrow> pyfloat \<Rightarrow> pyfloat" where
  "fdiv x y =
     (case (x, y) of
        (Fin a, Fin b) \<Rightarrow>
          if b = 0 then (if a = 0 then NaN else if 0 < a then PInf else NInf)
          else round_double (a / b)
      | (NaN, _) \<Rightarrow> NaN
      | (_, NaN) \<Rightarrow> NaN
      | (Fin a, _) \<Rightarrow> Fin 0
      | (_, Fin b) \<Rightarrow> if is_negative x = (b < 0) then PInf else NInf
      | _ \<Rightarrow> NaN)"

text \<open>
  Python's \<^verbatim>\<open>x / y\<close> on two floats raises on a zero divisor and is the IEEE quotient
  otherwise; on two ints it is the exact quotient rounded once, and raises when that is
  too large for a float. \<^verbatim>\<open>x == n\<close> compares a float with an int by value.
\<close>

definition float_truediv :: "pyfloat \<Rightarrow> pyfloat \<Rightarrow> error + pyfloat" where
  "float_truediv x y = (if is_zero y then Inl ZeroDivisionError else Inr (fdiv x y))"

definition int_truediv :: "int \<Rightarrow> int \<Rightarrow> error + pyfloat" where
  "int_truediv a b =
     (if b = 0 then Inl ZeroDivisionError
      else case round_double (of_int a / of_int b) of
             Fin q \<Rightarrow> Inr (Fin q)
           | _ \<Rightarrow> Inl OverflowError)"

definition float_eq_int :: "pyfloat \<Rightarrow> int \<Rightarrow> bool" where
  "float_eq_int x n = (case x of Fin q \<Rightarrow> q = of_int n | _ \<Rightarrow> False)"

section \<open>The chain accessor\<close>

text \<open>
  Python integers are unbounded, so block numbers and timestamps are \<^typ>\<open>int\<close>. The part
  of \<^verbatim>\<open>w3\<close> the script reads: \<^verbatim>\<open>w3.is_connected()\<close>, \<^verbatim>\<open>w3.eth.block_number\<close>,
  \<^verbatim>\<open>w3.eth.get_block(n)\<close> and \<^verbatim>\<open>w3.eth.get_block("latest")\<close>. The last three are remote
  calls; \<open>None\<close> stands for a call that raises.
\<close>

record block =
  number :: int
  timestamp :: int

record web3 =
  is_connected :: bool
  eth_block_number :: "int option"
  eth_get_block :: "int \<Rightarrow> block option"
  eth_get_block_latest :: "block option"

text \<open>
  The stOLAS contract: \<^verbatim>\<open>STOLAS_ABI\<close> declares \<^verbatim>\<open>totalAssets\<close> and \<^verbatim>\<open>totalSupply\<close> as views
  without arguments returning \<^verbatim>\<open>uint256\<close>; the argument here is the \<^verbatim>\<open>block_identifier\<close>
  of the call.
\<close>

record contract =
  totalAssets :: "int \<Rightarrow> 256 word option"
  totalSupply :: "int \<Rightarrow> 256 word option"

definition LOOKBACK_DAYS :: int where
  "LOOKBACK_DAYS = 7"

definition LOOKBACK_SECONDS :: int where
  "LOOKBACK_SECONDS = LOOKBACK_DAYS * 24 * 60 * 60"

text \<open>
  \<^verbatim>\<open>to_datetime\<close>: \<^verbatim>\<open>datetime.fromtimestamp(ts, tz=timezone.utc)\<close> raises unless the
  timestamp falls in the years 1 to 9999, from \<^verbatim>\<open>0001-01-01T00:00:00\<close> to
  \<^verbatim>\<open>9999-12-31T23:59:59\<close>. The datetime is kept as its timestamp.
\<close>

definition to_datetime :: "int \<Rightarrow> error + int" where
  "to_datetime ts =
     (if - 62135596800 \<le> ts \<and> ts \<le> 253402300799 then Inr ts else Inl TimestampOutOfRange)"

section \<open>find_block_by_timestamp\<close>

text \<open>
  The \<^verbatim>\<open>while low <= high\<close> loop of \<^verbatim>\<open>find_block_by_timestamp\<close> (lines 65 to 76), with the
  loop variables \<open>low\<close>, \<open>high\<close> and \<open>best\<close> as arguments. The result is the pair of the
  block numbers passed to \<^verbatim>\<open>w3.eth.get_block\<close>, in the order of the calls, and
  of the value returned (or the exception of a failing call, which leaves the loop).
\<close>

function find_loop :: "web3 \<Rightarrow> int \<Rightarrow> int \<Rightarrow> int \<Rightarrow> int \<Rightarrow> int list \<times> (error + int)" where
  "find_loop w3 target_ts low high best =
     (if low \<le> high then
        (let mid = (low + high) div 2 in
         case eth_get_block w3 mid of
           None \<Rightarrow> ([mid], Inl Web3Error)
         | Some blk \<Rightarrow>
             (let ts = timestamp blk;
                  rest = (if ts \<ge> target_ts
                          then find_loop w3 target_ts low (mid - 1) mid
                          else find_loop w3 target_ts (mid + 1) high best)
              in (mid # fst rest, snd rest)))
      else ([], Inr best))"
  by pat_completeness auto
termination
  by (relation "measure (\<lambda>(w3, target_ts, low, high, best). nat (high - low + 1))") auto

declare find_loop.simps [simp del]

definition find_block_by_timestamp :: "web3 \<Rightarrow> int \<Rightarrow> int list \<times> (error + int)" where
  "find_block_by_timestamp w3 target_ts =
     (case eth_block_number w3 of
        None \<Rightarrow> ([], Inl Web3Error)
      | Some latest \<Rightarrow> find_loop w3 target_ts 1 latest latest)"

section \<open>get_pps_at_block\<close>

definition get_pps_at_block :: "contract \<Rightarrow> int \<Rightarrow> error + pyfloat" where
  "get_pps_at_block contract block_number =
     (case totalAssets contract block_number of
        None \<Rightarrow> Inl Web3Error
      | Some total_assets \<Rightarrow>
          (case totalSupply contract block_number of
             None \<Rightarrow> Inl Web3Error
           | Some total_supply \<Rightarrow>
               if total_supply = 0 then Inl (TotalSupplyZero block_number)
               else int_truediv (uint total_assets) (uint total_supply)))"

section \<open>main\<close>

text \<open>
  The values of the local variables of \<^verbatim>\<open>main\<close> when it starts printing its report: field
  \<open>out_x\<close> holds the variable \<open>x\<close>.
\<close>

record report =
  out_pps_now :: pyfloat
  out_pps_past :: pyfloat
  out_change_ratio :: pyfloat
  out_change_pct :: pyfloat
  out_yearly_factor_7d :: pyfloat
  out_apr_7d_window :: pyfloat
  out_dt_seconds :: int
  out_days_interval :: pyfloat
  out_yearly_factor_real :: pyfloat
  out_apr_real :: pyfloat

text \<open>
  Lines 165 to 182 of \<^verbatim>\<open>main\<close>, the APR computation, as a function of the four variables
  it reads. The int operands \<^verbatim>\<open>LOOKBACK_DAYS\<close> and \<^verbatim>\<open>100\<close> of a float operation are
  converted to floats, without rounding.
\<close>

definition main_apr :: "pyfloat \<Rightarrow> pyfloat \<Rightarrow> int \<Rightarrow> int \<Rightarrow> error + report" where
  "main_apr pps_now pps_past latest_ts past_ts_actual =
     (if float_eq_int pps_past 0 then Inl PpsPastZero
      else
        case float_truediv pps_now pps_past of
          Inl e \<Rightarrow> Inl e
        | Inr change_ratio \<Rightarrow>
       (let change_pct = fmul (fsub change_ratio (Fin 1)) (Fin 100) in
        case float_truediv (Fin 365) (Fin (of_int LOOKBACK_DAYS)) of
          Inl e \<Rightarrow> Inl e
        | Inr yearly_factor_7d \<Rightarrow>
       (let apr_7d_window = fmul (fmul (fsub change_ratio (Fin 1)) yearly_factor_7d) (Fin 100);
            dt_seconds = latest_ts - past_ts_actual
        in if dt_seconds \<le> 0 then Inl NonPositiveInterval
           else
             case int_truediv dt_seconds (24 * 60 * 60) of
               Inl e \<Rightarrow> Inl e
             | Inr days_interval \<Rightarrow>
            (case float_truediv (Fin 365) days_interval of
               Inl e \<Rightarrow> Inl e
             | Inr yearly_factor_real \<Rightarrow>
            (let apr_real = fmul (fmul (fsub change_ratio (Fin 1)) yearly_factor_real) (Fin 100)
             in Inr \<lparr> out_pps_now = pps_now, out_pps_past = pps_past,
                      out_change_ratio = change_ratio, out_change_pct = change_pct,
                      out_yearly_factor_7d = yearly_factor_7d, out_apr_7d_window = apr_7d_window,
                      out_dt_seconds = dt_seconds, out_days_interval = days_interval,
                      out_yearly_factor_real = yearly_factor_real, out_apr_real = apr_real \<rparr>)))))"

text \<open>
  Lines 118 to 163 of \<^verbatim>\<open>main\<close>: the connection check, the latest block, the target
  timestamp, the past block and the two PPS samples. The result is the four variables the
  APR computation reads: \<open>pps_now\<close>, \<open>pps_past\<close>, \<open>latest_ts\<close> and \<open>past_ts_actual\<close>.
  The command line and the construction of the \<^verbatim>\<open>Web3\<close> and contract objects are not
  modelled: \<open>main\<close> starts from the two objects, which answer every call of one run from
  the same state of the chain. The \<^verbatim>\<open>print\<close> calls are left out, except for the remote
  read in line 127.
\<close>

definition main_samples :: "web3 \<Rightarrow> contract \<Rightarrow> error + (pyfloat \<times> pyfloat \<times> int \<times> int)" where
  "main_samples w3 stolas =
     (if \<not> is_connected w3 then Inl (SystemExit 1)
      else
        case eth_block_number w3 of
          None \<Rightarrow> Inl Web3Error
        | Some printed \<Rightarrow>
       (case eth_get_block_latest w3 of
          None \<Rightarrow> Inl Web3Error
        | Some latest_block \<Rightarrow>
       (let latest_number = number latest_block;
            latest_ts = timestamp latest_block
        in case to_datetime latest_ts of
          Inl e \<Rightarrow> Inl e
        | Inr latest_dt \<Rightarrow>
       (let target_ts = latest_ts - LOOKBACK_SECONDS
        in case to_datetime target_ts of
          Inl e \<Rightarrow> Inl e
        | Inr target_dt \<Rightarrow>
       (case snd (find_block_by_timestamp w3 target_ts) of
          Inl e \<Rightarrow> Inl e
        | Inr past_block_num \<Rightarrow>
       (case eth_get_block w3 past_block_num of
          None \<Rightarrow> Inl Web3Error
        | Some past_block \<Rightarrow>
       (let past_ts_actual = timestamp past_block
        in case to_datetime past_ts_actual of
          Inl e \<Rightarrow> Inl e
        | Inr past_dt_actual \<Rightarrow>
       (case get_pps_at_block stolas latest_number of
          Inl e \<Rightarrow> Inl e
        | Inr pps_now \<Rightarrow>
       (case get_pps_at_block stolas past_block_num of
          Inl e \<Rightarrow> Inl e
        | Inr pps_past \<Rightarrow> Inr (pps_now, pps_past, latest_ts, past_ts_actual))))))))))"

definition main :: "web3 \<Rightarrow> contract \<Rightarrow> error + report" where
  "main w3 stolas =
     (case main_samples w3 stolas of
        Inl e \<Rightarrow> Inl e
      | Inr (pps_now, pps_past, latest_ts, past_ts_actual) \<Rightarrow>
          main_apr pps_now pps_past latest_ts past_ts_actual)"

section \<open>Chains for the examples\<close>

text \<open>
  A chain on which the blocks \<open>lo, \<dots>, hi\<close> can all be read, block \<open>b\<close> carrying the
  timestamp \<open>ts b\<close>, and timestamps that do not decrease with the block number.
\<close>

definition readable :: "web3 \<Rightarrow> (int \<Rightarrow> int) \<Rightarrow> int \<Rightarrow> int \<Rightarrow> bool" where
  "readable w3 ts lo hi \<longleftrightarrow>
     (\<forall>b\<in>{lo..hi}.
        case eth_get_block w3 b of None \<Rightarrow> False | Some blk \<Rightarrow> timestamp blk = ts b)"

definition non_decreasing :: "(int \<Rightarrow> int) \<Rightarrow> int \<Rightarrow> int \<Rightarrow> bool" where
  "non_decreasing ts lo hi \<longleftrightarrow> (\<forall>a\<in>{lo..hi}. \<forall>b\<in>{a..hi}. ts a \<le> ts b)"

text \<open>The chain of the worked example: ten blocks with the timestamps 100, 110, ..., 190.\<close>

definition example_chain :: web3 where
  "example_chain =
     \<lparr> is_connected = True,
       eth_block_number = Some 10,
       eth_get_block = (\<lambda>n. if 0 \<le> n \<and> n \<le> 10
                         then Some \<lparr> number = n, timestamp = 90 + 10 * n \<rparr>
                         else None),
       eth_get_block_latest = Some \<lparr> number = 10, timestamp = 190 \<rparr> \<rparr>"

text \<open>Its contract: 100 shares throughout, 150 assets up to block 6 and 200 from block 7 on.\<close>

definition example_contract :: contract where
  "example_contract =
     \<lparr> totalAssets = (\<lambda>n. if n \<le> 6 then Some 150 else Some 200),
       totalSupply = (\<lambda>n. Some 100) \<rparr>"

text \<open>A contract whose price per share never changes: 150 assets for 100 shares.\<close>

definition flat_contract :: contract where
  "flat_contract = \<lparr> totalAssets = (\<lambda>n. Some 150), totalSupply = (\<lambda>n. Some 100) \<rparr>"

section \<open>Properties of find_block_by_timestamp\<close>

lemma readableD:
  "readable w3 ts lo hi \<Longrightarrow> lo \<le> b \<Longrightarrow> b \<le> hi \<Longrightarrow> \<exists>blk. eth_get_block w3 b = Some blk \<and> timestamp blk = ts b"
proof -
  assume r: "readable w3 ts lo hi" and b: "lo \<le> b" "b \<le> hi"
  from b have "b \<in> {lo..hi}" by simp
  with r have "case eth_get_block w3 b of None \<Rightarrow> False | Some blk \<Rightarrow> timestamp blk = ts b"
    unfolding readable_def by blast
  then show ?thesis by (cases "eth_get_block w3 b") simp_all
qed

lemma readable_sub:
  "readable w3 ts lo hi \<Longrightarrow> lo \<le> lo' \<Longrightarrow> hi' \<le> hi \<Longrightarrow> readable w3 ts lo' hi'"
  by (auto simp: readable_def)

lemma non_decreasingD:
  "non_decreasing ts lo hi \<Longrightarrow> lo \<le> a \<Longrightarrow> a \<le> b \<Longrightarrow> b \<le> hi \<Longrightarrow> ts a \<le> ts b"
  by (auto simp: non_decreasing_def)

lemma find_loop_all_below:
  "readable w3 ts low high \<Longrightarrow> \<forall>b\<in>{low..high}. ts b < target_ts \<Longrightarrow>
   snd (find_loop w3 target_ts low high best) = Inr best"
proof (induction w3 target_ts low high best rule: find_loop.induct)
  case (1 w3 target_ts low high best)
  show ?case
  proof (cases "low \<le> high")
    case False
    then show ?thesis by (simp add: find_loop.simps)
  next
    case True
    define mid where "mid = (low + high) div 2"
    have m: "low \<le> mid" "mid \<le> high" using True by (auto simp: mid_def)
    obtain blk where blk: "eth_get_block w3 mid = Some blk" "timestamp blk = ts mid"
      using readableD[OF "1.prems"(1) m] by blast
    have "ts mid < target_ts" using "1.prems"(2) m by simp
    then have lt: "\<not> target_ts \<le> timestamp blk" using blk by simp
    have "snd (find_loop w3 target_ts (mid + 1) high best) = Inr best"
    proof (rule "1.IH"(2)[OF True mid_def blk(1) refl lt])
      show "readable w3 ts (mid + 1) high" using readable_sub[OF "1.prems"(1)] m by simp
      show "\<forall>b\<in>{mid + 1..high}. ts b < target_ts" using "1.prems"(2) m by auto
    qed
    then show ?thesis
      using True blk lt by (subst find_loop.simps) (simp add: mid_def[symmetric] Let_def)
  qed
qed

lemma find_loop_lower_bound:
  "readable w3 ts low high \<Longrightarrow> non_decreasing ts low high \<Longrightarrow>
   \<exists>b\<in>{low..high}. target_ts \<le> ts b \<Longrightarrow>
   \<exists>r. snd (find_loop w3 target_ts low high best) = Inr r \<and> low \<le> r \<and> r \<le> high \<and>
       target_ts \<le> ts r \<and> (\<forall>c\<in>{low..<r}. ts c < target_ts)"
proof (induction w3 target_ts low high best rule: find_loop.induct)
  case (1 w3 target_ts low high best)
  from "1.prems"(3) have True: "low \<le> high" by auto
  define mid where "mid = (low + high) div 2"
  have m: "low \<le> mid" "mid \<le> high" using True by (auto simp: mid_def)
  obtain blk where blk: "eth_get_block w3 mid = Some blk" "timestamp blk = ts mid"
    using readableD[OF "1.prems"(1) m] by blast
  show ?case
  proof (cases "target_ts \<le> ts mid")
    case ge: True
    then have ge': "target_ts \<le> timestamp blk" using blk by simp
    have unf: "snd (find_loop w3 target_ts low high best) = snd (find_loop w3 target_ts low (mid - 1) mid)"
      using True blk ge' by (subst find_loop.simps) (simp add: mid_def[symmetric] Let_def)
    have rd: "readable w3 ts low (mid - 1)" using readable_sub[OF "1.prems"(1)] m by simp
    have nd: "non_decreasing ts low (mid - 1)" using "1.prems"(2) m by (auto simp: non_decreasing_def)
    show ?thesis
    proof (cases "\<exists>b\<in>{low..mid - 1}. target_ts \<le> ts b")
      case ex: True
      from "1.IH"(1)[OF True mid_def blk(1) refl ge' rd nd ex]
      obtain r where r: "snd (find_loop w3 target_ts low (mid - 1) mid) = Inr r" "low \<le> r" "r \<le> mid - 1"
        "target_ts \<le> ts r" "\<forall>c\<in>{low..<r}. ts c < target_ts" by blast
      then show ?thesis using unf m by auto
    next
      case nex: False
      then have all: "\<forall>b\<in>{low..mid - 1}. ts b < target_ts" by auto
      have "snd (find_loop w3 target_ts low (mid - 1) mid) = Inr mid"
        by (rule find_loop_all_below[OF rd all])
      moreover have "\<forall>c\<in>{low..<mid}. ts c < target_ts" using all by auto
      ultimately show ?thesis using unf m ge by auto
    qed
  next
    case lt: False
    then have lt': "\<not> target_ts \<le> timestamp blk" using blk by simp
    have unf: "snd (find_loop w3 target_ts low high best) = snd (find_loop w3 target_ts (mid + 1) high best)"
      using True blk lt' by (subst find_loop.simps) (simp add: mid_def[symmetric] Let_def)
    have rd: "readable w3 ts (mid + 1) high" using readable_sub[OF "1.prems"(1)] m by simp
    have nd: "non_decreasing ts (mid + 1) high" using "1.prems"(2) m by (auto simp: non_decreasing_def)
    have below: "\<forall>c\<in>{low..mid}. ts c < target_ts"
    proof
      fix c assume "c \<in> {low..mid}"
      then have "ts c \<le> ts mid" using non_decreasingD[OF "1.prems"(2), of c mid] m by auto
      then show "ts c < target_ts" using lt by simp
    qed
    have ex: "\<exists>b\<in>{mid + 1..high}. target_ts \<le> ts b"
    proof -
      from "1.prems"(3) obtain b where b: "b \<in> {low..high}" "target_ts \<le> ts b" by blast
      with below have "\<not> b \<le> mid" by force
      with b show ?thesis by force
    qed
    from "1.IH"(2)[OF True mid_def blk(1) refl lt' rd nd ex]
    obtain r where r: "snd (find_loop w3 target_ts (mid + 1) high best) = Inr r" "mid + 1 \<le> r" "r \<le> high"
        "target_ts \<le> ts r" "\<forall>c\<in>{mid + 1..<r}. ts c < target_ts" by blast
    have "\<forall>c\<in>{low..<r}. ts c < target_ts"
    proof
      fix c assume c: "c \<in> {low..<r}"
      show "ts c < target_ts"
      proof (cases "c \<le> mid")
        case True then show ?thesis using below c by simp
      next
        case False then show ?thesis using r(5) c by simp
      qed
    qed
    then show ?thesis using unf r m by auto
  qed
qed

lemma half_bound: "0 < n \<Longrightarrow> m \<le> n div 2 \<Longrightarrow> Suc (floorlog 2 m) \<le> floorlog 2 n"
  using floorlog_mono[of m "n div 2" 2] by (subst (2) compute_floorlog) simp

lemma find_loop_probes:
  "length (fst (find_loop w3 target_ts low high best)) \<le> floorlog 2 (nat (high - low + 1))"
proof (induction w3 target_ts low high best rule: find_loop.induct)
  case (1 w3 target_ts low high best)
  show ?case
  proof (cases "low \<le> high")
    case False
    then show ?thesis by (simp add: find_loop.simps)
  next
    case True
    define mid where "mid = (low + high) div 2"
    have pos: "0 < nat (high - low + 1)" using True by simp
    show ?thesis
    proof (cases "eth_get_block w3 mid")
      case None
      have "1 \<le> floorlog 2 (nat (high - low + 1))"
        using pos by (subst compute_floorlog) simp
      then show ?thesis using True None
        by (subst find_loop.simps) (simp add: mid_def[symmetric] Let_def)
    next
      case (Some blk)
      show ?thesis
      proof (cases "target_ts \<le> timestamp blk")
        case ge: True
        have "nat (mid - 1 - low + 1) \<le> nat (high - low + 1) div 2"
          using True by (simp add: mid_def; linarith)
        from half_bound[OF pos this] "1.IH"(1)[OF True mid_def Some refl ge]
        show ?thesis using True Some ge
          by (subst find_loop.simps) (simp add: mid_def[symmetric] Let_def)
      next
        case lt: False
        have "nat (high - (mid + 1) + 1) \<le> nat (high - low + 1) div 2"
          using True by (simp add: mid_def; linarith)
        from half_bound[OF pos this] "1.IH"(2)[OF True mid_def Some refl lt]
        show ?thesis using True Some lt
          by (subst find_loop.simps) (simp add: mid_def[symmetric] Let_def)
      qed
    qed
  qed
qed

lemma find_loop_error: "snd (find_loop w3 target_ts low high best) = Inl e \<Longrightarrow> e = Web3Error"
proof (induction w3 target_ts low high best rule: find_loop.induct)
  case (1 w3 target_ts low high best)
  show ?case
  proof (cases "low \<le> high")
    case False
    with "1.prems" show ?thesis by (simp add: find_loop.simps)
  next
    case True
    define mid where "mid = (low + high) div 2"
    show ?thesis
    proof (cases "eth_get_block w3 mid")
      case None
      with "1.prems" True show ?thesis
        by (subst (asm) find_loop.simps) (simp add: mid_def[symmetric] Let_def)
    next
      case (Some blk)
      show ?thesis
      proof (cases "target_ts \<le> timestamp blk")
        case ge: True
        from "1.prems" have "snd (find_loop w3 target_ts low (mid - 1) mid) = Inl e"
          using True Some ge by (subst (asm) find_loop.simps) (simp add: mid_def[symmetric] Let_def)
        then show ?thesis by (rule "1.IH"(1)[OF True mid_def Some refl ge])
      next
        case lt: False
        from "1.prems" have "snd (find_loop w3 target_ts (mid + 1) high best) = Inl e"
          using True Some lt by (subst (asm) find_loop.simps) (simp add: mid_def[symmetric] Let_def)
        then show ?thesis by (rule "1.IH"(2)[OF True mid_def Some refl lt])
      qed
    qed
  qed
qed

lemma find_block_by_timestamp_error:
  "snd (find_block_by_timestamp w3 target_ts) = Inl e \<Longrightarrow> e = Web3Error"
  by (auto simp: find_block_by_timestamp_def split: option.splits dest: find_loop_error)

lemma example_find_145: "find_block_by_timestamp example_chain 145 = ([5, 8, 6], Inr 6)"
  by (simp add: find_block_by_timestamp_def example_chain_def find_loop.simps Let_def)

lemma example_locate_week:
  "find_block_by_timestamp example_chain (- 604610) = ([5, 2, 1], Inr 1)"
  by (simp add: find_block_by_timestamp_def example_chain_def find_loop.simps Let_def)

text \<open>
  C1. On a chain whose blocks \<open>1, \<dots>, latest\<close> (with \<open>latest \<ge> 1\<close>, so that block 1 exists)
  are readable and carry non-decreasing timestamps, and for a target not above the
  timestamp of the latest block, \<open>find_block_by_timestamp\<close> returns the smallest block
  number \<open>b\<close> of \<open>[1, latest]\<close> whose timestamp is at least the target: no smaller block of
  the range reaches the target, and the result is 1 whenever the target is at most the
  timestamp of block 1. (A lower bound on the target is not needed.)
\<close>

theorem find_block_by_timestamp_minimal:
  assumes "eth_block_number w3 = Some latest" and "1 \<le> latest"
    and "readable w3 ts 1 latest" and "non_decreasing ts 1 latest"
    and "target_ts \<le> ts latest"
  shows "\<exists>b. snd (find_block_by_timestamp w3 target_ts) = Inr b \<and> b \<in> {1..latest} \<and>
           target_ts \<le> ts b \<and> (\<forall>c\<in>{1..<b}. ts c < target_ts) \<and>
           (target_ts \<le> ts 1 \<longrightarrow> b = 1)"
proof -
  have ex: "\<exists>b\<in>{1..latest}. target_ts \<le> ts b"
    using assms(2,5) by (intro bexI[of _ latest]) auto
  from find_loop_lower_bound[OF assms(3,4) ex, of latest]
  obtain r where r: "snd (find_loop w3 target_ts 1 latest latest) = Inr r" "1 \<le> r" "r \<le> latest"
    "target_ts \<le> ts r" "\<forall>c\<in>{1..<r}. ts c < target_ts" by blast
  have "target_ts \<le> ts 1 \<longrightarrow> r = 1"
  proof
    assume le: "target_ts \<le> ts 1"
    show "r = 1"
    proof (rule ccontr)
      assume "r \<noteq> 1"
      with r(2) have "1 \<in> {1..<r}" by simp
      with r(5) have "ts 1 < target_ts" by blast
      with le show False by simp
    qed
  qed
  with r show ?thesis
    by (simp add: find_block_by_timestamp_def assms(1))
qed

theorem find_block_by_timestamp_minimal_witness:
  "eth_block_number example_chain = Some 10 \<and> (1::int) \<le> 10 \<and>
   readable example_chain (\<lambda>n. 90 + 10 * n) 1 10 \<and>
   non_decreasing (\<lambda>n. 90 + 10 * n) 1 10 \<and>
   (145::int) \<le> 90 + 10 * 10 \<and> (100::int) \<le> 90 + 10 * 10 \<and>
   snd (find_block_by_timestamp example_chain 145) = Inr 6 \<and>
   snd (find_block_by_timestamp example_chain 100) = Inr 1"
proof -
  have h1: "eth_block_number example_chain = Some 10" by (simp add: example_chain_def)
  have h2: "(1::int) \<le> 10" by simp
  have h3: "readable example_chain (\<lambda>n. 90 + 10 * n) 1 10"
    by (simp add: readable_def example_chain_def)
  have h4: "non_decreasing (\<lambda>n. 90 + 10 * n) 1 10" by (simp add: non_decreasing_def)
  have h5: "(145::int) \<le> 90 + 10 * 10" and h6: "(100::int) \<le> 90 + 10 * 10" by simp_all
  from find_block_by_timestamp_minimal[OF h1 h2 h3 h4 h5]
  obtain b where b: "snd (find_block_by_timestamp example_chain 145) = Inr b"
    "b \<in> {1..10}" "145 \<le> 90 + 10 * b" "\<forall>c\<in>{1..<b}. 90 + 10 * c < (145::int)"
    by blast
  have "b = 6"
  proof (rule ccontr)
    assume "b \<noteq> 6"
    with b(3) have "6 \<in> {1..<b}" by simp
    with b(4) have "90 + 10 * 6 < (145::int)" by blast
    then show False by simp
  qed
  with b(1) have r1: "snd (find_block_by_timestamp example_chain 145) = Inr 6" by simp
  from find_block_by_timestamp_minimal[OF h1 h2 h3 h4 h6]
  have r2: "snd (find_block_by_timestamp example_chain 100) = Inr 1" by auto
  from h1 h2 h3 h4 h5 h6 r1 r2 show ?thesis by blast
qed

text \<open>
  C2. On a chain whose blocks \<open>1, \<dots>, latest\<close> are readable and carry non-decreasing
  timestamps, a target strictly above the timestamp of the latest block makes
  \<open>find_block_by_timestamp\<close> return \<open>latest\<close>, the initial value of \<open>best\<close>, as an ordinary
  result (\<open>Inr\<close>) and not as an error.
\<close>

theorem find_block_by_timestamp_fallback:
  assumes "eth_block_number w3 = Some latest"
    and "readable w3 ts 1 latest" and "non_decreasing ts 1 latest"
    and "ts latest < target_ts"
  shows "snd (find_block_by_timestamp w3 target_ts) = Inr latest"
proof -
  have "\<forall>b\<in>{1..latest}. ts b < target_ts"
  proof
    fix b assume "b \<in> {1..latest}"
    then have "ts b \<le> ts latest"
      using non_decreasingD[OF assms(3), of b latest] by simp
    with assms(4) show "ts b < target_ts" by simp
  qed
  from find_loop_all_below[OF assms(2) this]
  show ?thesis by (simp add: find_block_by_timestamp_def assms(1))
qed

theorem find_block_by_timestamp_fallback_witness:
  "eth_block_number example_chain = Some 10 \<and>
   readable example_chain (\<lambda>n. 90 + 10 * n) 1 10 \<and>
   non_decreasing (\<lambda>n. 90 + 10 * n) 1 10 \<and>
   (90::int) + 10 * 10 < 191 \<and>
   snd (find_block_by_timestamp example_chain 191) = Inr 10"
proof -
  have h1: "eth_block_number example_chain = Some 10" by (simp add: example_chain_def)
  have h2: "readable example_chain (\<lambda>n. 90 + 10 * n) 1 10"
    by (simp add: readable_def example_chain_def)
  have h3: "non_decreasing (\<lambda>n. 90 + 10 * n) 1 10" by (simp add: non_decreasing_def)
  have h4: "(90::int) + 10 * 10 < 191" by simp
  from find_block_by_timestamp_fallback[OF h1 h2 h3 h4] h1 h2 h3 h4
  show ?thesis by simp
qed

text \<open>
  C7. For every latest block number \<open>N \<ge> 1\<close>, every target and every chain (timestamps in
  any order, reads that may fail), the loop of \<open>find_block_by_timestamp\<close> terminates
  (\<open>find_loop\<close> is a total function, its interval \<open>high - low + 1\<close> shrinking at every
  iteration) and calls \<^verbatim>\<open>get_block\<close> at most \<open>\<lfloor>log\<^sub>2 N\<rfloor> + 1\<close> times.
\<close>

theorem find_block_by_timestamp_probes:
  assumes "eth_block_number w3 = Some N" and "1 \<le> N"
  shows "\<exists>probes result. find_block_by_timestamp w3 target_ts = (probes, result) \<and>
           int (length probes) \<le> \<lfloor>log 2 (real_of_int N)\<rfloor> + 1"
proof -
  have "length (fst (find_loop w3 target_ts 1 N N)) \<le> floorlog 2 (nat N)"
    using find_loop_probes[of w3 target_ts 1 N N] by simp
  also have "int (floorlog 2 (nat N)) = \<lfloor>log 2 (real_of_int N)\<rfloor> + 1"
  proof -
    have "0 \<le> log 2 (real_of_int N)" using assms(2) by simp
    then show ?thesis using assms(2) by (simp add: floorlog_def)
  qed
  finally have "int (length (fst (find_loop w3 target_ts 1 N N))) \<le> \<lfloor>log 2 (real_of_int N)\<rfloor> + 1"
    by simp
  then show ?thesis
    by (simp add: find_block_by_timestamp_def assms(1) prod_eq_iff)
qed

theorem find_block_by_timestamp_probes_witness:
  "eth_block_number example_chain = Some 10 \<and> (1::int) \<le> 10 \<and>
   (\<exists>probes result. find_block_by_timestamp example_chain 191 = (probes, result) \<and>
      int (length probes) \<le> \<lfloor>log 2 (real_of_int 10)\<rfloor> + 1)"
proof -
  have h1: "eth_block_number example_chain = Some 10" by (simp add: example_chain_def)
  have h2: "(1::int) \<le> 10" by simp
  from find_block_by_timestamp_probes[OF h1 h2, of 191] h1 h2
  show ?thesis by simp
qed

text \<open>The bound is attained: a chain with the single block 1 takes one probe.\<close>

lemma single_block_probe:
  assumes "eth_block_number w3 = Some 1"
  shows "length (fst (find_block_by_timestamp w3 target_ts)) = 1"
  using assms
  by (cases "eth_get_block w3 1")
     (simp_all add: find_block_by_timestamp_def find_loop.simps[of _ _ 1 1]
        find_loop.simps[of _ _ 1 0] find_loop.simps[of _ _ 2 1] Let_def)

text \<open>
  C9. When the latest block number is 0, \<open>find_block_by_timestamp\<close> reads no block at all
  and returns 0, whatever the target; 0 is not a block number of the range \<open>[1, latest]\<close>.
\<close>

theorem find_block_by_timestamp_latest_zero:
  assumes "eth_block_number w3 = Some latest" and "latest = 0"
  shows "find_block_by_timestamp w3 target_ts = ([], Inr 0) \<and> 0 \<notin> {1..latest}"
  using assms by (simp add: find_block_by_timestamp_def find_loop.simps)

theorem find_block_by_timestamp_latest_zero_witness:
  "eth_block_number (example_chain\<lparr>eth_block_number := Some 0\<rparr>) = Some 0 \<and>
   find_block_by_timestamp (example_chain\<lparr>eth_block_number := Some 0\<rparr>) 145 = ([], Inr 0) \<and>
   (0::int) \<notin> {1..0}"
proof -
  have h: "eth_block_number (example_chain\<lparr>eth_block_number := Some 0\<rparr>) = Some 0" by simp
  from find_block_by_timestamp_latest_zero[OF h refl, of 145] h
  show ?thesis by simp
qed

section \<open>Rounding to binary64\<close>

lemma bit_length_nonneg: "0 \<le> bit_length n"
  by (induction n rule: bit_length.induct) (subst bit_length.simps, simp)

lemma bit_length_bounds:
  "0 < n \<Longrightarrow> 1 \<le> bit_length n \<and> 2 ^ nat (bit_length n - 1) \<le> n \<and> n < 2 ^ nat (bit_length n)"
proof (induction n rule: bit_length.induct)
  case (1 n)
  show ?case
  proof (cases "n = 1")
    case True
    have "bit_length 1 = 1"
      by (subst bit_length.simps, simp, subst bit_length.simps, simp)
    with True show ?thesis by simp
  next
    case False
    with "1.prems" have pos: "0 < n div 2" by simp
    from "1.prems" have nle: "\<not> n \<le> 0" by simp
    from "1.IH"[OF nle pos] have IH: "1 \<le> bit_length (n div 2)"
      "2 ^ nat (bit_length (n div 2) - 1) \<le> n div 2" "n div 2 < 2 ^ nat (bit_length (n div 2))"
      by auto
    have bl: "bit_length n = 1 + bit_length (n div 2)"
      using nle by (subst bit_length.simps) simp
    have e1: "nat (bit_length n - 1) = Suc (nat (bit_length (n div 2) - 1))"
      using IH(1) bl by simp
    have e2: "nat (bit_length n) = Suc (nat (bit_length (n div 2)))"
      using IH(1) bl by simp
    have "2 * 2 ^ nat (bit_length (n div 2) - 1) \<le> n" using IH(2) by linarith
    then have lo: "2 ^ nat (bit_length n - 1) \<le> n" by (simp only: e1 power_Suc)
    have "n < 2 * 2 ^ nat (bit_length (n div 2))" using IH(3) by linarith
    then have hi: "n < 2 ^ nat (bit_length n)" by (simp only: e2 power_Suc)
    have "1 \<le> bit_length n" using bl IH(1) by simp
    with lo hi show ?thesis by blast
  qed
qed

lemma bit_length_1: "bit_length 1 = 1"
  by (subst bit_length.simps, simp, subst bit_length.simps, simp)

lemma ilog2_bounds:
  assumes "0 < a"
  shows "2 powi ilog2 a \<le> a" and "a < 2 powi (ilog2 a + 1)"
proof -
  have "2 powi ilog2 a \<le> a \<and> a < 2 powi (ilog2 a + 1)"
  proof (cases "1 \<le> a")
    case True
    define n where "n = \<lfloor>a\<rfloor>"
    have npos: "0 < n" using True by (simp add: n_def)
    from bit_length_bounds[OF npos] have b: "1 \<le> bit_length n"
      "2 ^ nat (bit_length n - 1) \<le> n" "n < 2 ^ nat (bit_length n)" by auto
    have il: "ilog2 a = bit_length n - 1" using True by (simp add: ilog2_def n_def)
    have "(2::rat) powi (bit_length n - 1) = 2 ^ nat (bit_length n - 1)"
      using b(1) by (simp add: power_int_def)
    also have "\<dots> = of_int (2 ^ nat (bit_length n - 1))" by simp
    also have "\<dots> \<le> of_int n" using b(2) by (simp only: of_int_le_iff)
    also have "\<dots> \<le> a" by (simp add: n_def)
    finally have lo: "2 powi (bit_length n - 1) \<le> a" .
    have "n + 1 \<le> 2 ^ nat (bit_length n)" using b(3) by simp
    then have "(of_int (n + 1) :: rat) \<le> of_int (2 ^ nat (bit_length n))"
      by (simp only: of_int_le_iff)
    moreover have "a < of_int (n + 1)" unfolding n_def by linarith
    ultimately have "a < of_int (2 ^ nat (bit_length n))" by linarith
    also have "\<dots> = 2 powi (bit_length n)" using b(1) by (simp add: power_int_def)
    finally have hi: "a < 2 powi (bit_length n)" .
    show ?thesis using lo hi by (simp add: il)
  next
    case False
    define m where "m = \<lceil>1 / a\<rceil> - 1"
    have inv: "1 < 1 / a" using False assms by simp
    have mpos: "0 < m" using inv unfolding m_def by linarith
    from bit_length_bounds[OF mpos] have b: "1 \<le> bit_length m"
      "2 ^ nat (bit_length m - 1) \<le> m" "m < 2 ^ nat (bit_length m)" by auto
    have il: "ilog2 a = - bit_length m" using False by (simp add: ilog2_def m_def)
    have m1: "of_int m < 1 / a" unfolding m_def by linarith
    have m2: "1 / a \<le> of_int (m + 1)" unfolding m_def by simp
    have "m + 1 \<le> 2 ^ nat (bit_length m)" using b(3) by simp
    then have "(of_int (m + 1) :: rat) \<le> of_int (2 ^ nat (bit_length m))"
      by (simp only: of_int_le_iff)
    with m2 have "1 / a \<le> 2 ^ nat (bit_length m)" by simp
    then have "1 \<le> 2 ^ nat (bit_length m) * a" using assms by (simp add: field_simps)
    then have "1 / 2 ^ nat (bit_length m) \<le> a" by (simp add: field_simps)
    moreover have "(2::rat) powi (- bit_length m) = 1 / 2 ^ nat (bit_length m)"
      using b(1) by (simp add: power_int_def field_simps)
    ultimately have lo: "2 powi (- bit_length m) \<le> a" by simp
    have "(of_int (2 ^ nat (bit_length m - 1)) :: rat) \<le> of_int m"
      using b(2) by (simp only: of_int_le_iff)
    then have "(2::rat) ^ nat (bit_length m - 1) \<le> of_int m" by simp
    with m1 have "(2::rat) ^ nat (bit_length m - 1) < 1 / a" by linarith
    then have "2 ^ nat (bit_length m - 1) * a < 1" using assms by (simp add: field_simps)
    then have "a < 1 / 2 ^ nat (bit_length m - 1)" by (simp add: field_simps)
    moreover have "(2::rat) powi (- bit_length m + 1) = 1 / 2 ^ nat (bit_length m - 1)"
    proof (cases "bit_length m = 1")
      case True then show ?thesis by simp
    next
      case False
      with b(1) have "- bit_length m + 1 < 0" by simp
      then show ?thesis by (simp add: power_int_def field_simps nat_diff_distrib)
    qed
    ultimately have hi: "a < 2 powi (- bit_length m + 1)" by simp
    show ?thesis using lo hi by (simp add: il)
  qed
  then show "2 powi ilog2 a \<le> a" and "a < 2 powi (ilog2 a + 1)" by auto
qed

lemma ilog2_ge: "0 < a \<Longrightarrow> 2 powi k \<le> a \<Longrightarrow> k \<le> ilog2 a"
proof (rule ccontr)
  assume a: "0 < a" "2 powi k \<le> a" and "\<not> k \<le> ilog2 a"
  then have "ilog2 a + 1 \<le> k" by simp
  then have "(2::rat) powi (ilog2 a + 1) \<le> 2 powi k"
    by (intro power_int_increasing) auto
  with ilog2_bounds(2)[OF a(1)] a(2) show False by simp
qed

lemma ilog2_le: "0 < a \<Longrightarrow> a \<le> 2 powi k \<Longrightarrow> ilog2 a \<le> k"
proof (rule ccontr)
  assume a: "0 < a" "a \<le> 2 powi k" and "\<not> ilog2 a \<le> k"
  then have "k < ilog2 a" by simp
  then have "(2::rat) powi k < 2 powi ilog2 a"
    by (intro power_int_strict_increasing) auto
  with ilog2_bounds(1)[OF a(1)] a(2) show False by simp
qed

lemma ilog2_eqI:
  assumes "2 powi e \<le> a" and "a < 2 powi (e + 1)"
  shows "ilog2 a = e"
proof -
  have "(0::rat) < 2 powi e" by simp
  with assms(1) have apos: "0 < a" by linarith
  have "e \<le> ilog2 a" by (rule ilog2_ge[OF apos assms(1)])
  moreover have "ilog2 a < e + 1"
  proof (rule ccontr)
    assume "\<not> ilog2 a < e + 1"
    then have "(2::rat) powi (e + 1) \<le> 2 powi ilog2 a"
      by (intro power_int_increasing) auto
    with ilog2_bounds(1)[OF apos] assms(2) show False by linarith
  qed
  ultimately show ?thesis by linarith
qed

lemma round_half_even_ge: "of_int n \<le> x \<Longrightarrow> n \<le> round_half_even x"
proof -
  assume "of_int n \<le> x"
  then have "n \<le> \<lfloor>x\<rfloor>" by (simp add: le_floor_iff)
  then show ?thesis by (auto simp: round_half_even_def Let_def)
qed

lemma round_half_even_le: "x \<le> of_int n \<Longrightarrow> round_half_even x \<le> n"
proof -
  assume le: "x \<le> of_int n"
  show ?thesis
  proof (cases "x = of_int n")
    case True
    then show ?thesis by (simp add: round_half_even_def Let_def)
  next
    case False
    with le have "x < of_int n" by simp
    then have "\<lfloor>x\<rfloor> < n" by (simp add: floor_less_iff)
    then show ?thesis by (auto simp: round_half_even_def Let_def)
  qed
qed

lemma round_half_even_error: "\<bar>of_int (round_half_even x) - x\<bar> \<le> 1 / 2"
proof -
  have "of_int \<lfloor>x\<rfloor> \<le> x" "x < of_int \<lfloor>x\<rfloor> + 1" by linarith+
  then show ?thesis
    unfolding round_half_even_def Let_def
    by (simp only: abs_if of_int_add of_int_1 split: if_splits) linarith
qed

lemma round_half_even_eqI:
  assumes "\<bar>x - of_int m\<bar> < 1 / 2"
  shows "round_half_even x = m"
proof -
  have "\<bar>(of_int (round_half_even x) :: rat) - of_int m\<bar> < 1"
    using round_half_even_error[of x] assms by linarith
  then have "\<bar>(of_int (round_half_even x - m) :: rat)\<bar> < of_int 1" by simp
  then have "\<bar>round_half_even x - m\<bar> < 1"
    by (simp only: of_int_abs[symmetric] of_int_less_iff)
  then show ?thesis by linarith
qed

lemma round_half_even_tie:
  "x = of_int f + 1 / 2 \<Longrightarrow> round_half_even x = (if even f then f else f + 1)"
proof -
  assume x: "x = of_int f + 1 / 2"
  have "\<lfloor>x\<rfloor> = f" unfolding x by (rule floor_unique) simp_all
  then show ?thesis by (simp add: round_half_even_def Let_def x)
qed

lemma round_double_zero: "round_double 0 = Fin 0"
  by (simp add: round_double_def)

lemma round_double_pos:
  assumes "0 < q"
  defines "e \<equiv> max (ilog2 q) (- 1022)"
  defines "r \<equiv> of_int (round_half_even (q / 2 powi (e - 52))) * 2 powi (e - 52)"
  shows "round_double q = (if 2 powi 1024 \<le> r then PInf else Fin r)"
  using assms(1) by (simp add: round_double_def Let_def e_def r_def)

lemma round_double_upper:
  assumes "0 < q" and "q \<le> 2 powi k" and "- 1074 \<le> k" and "k \<le> 1023"
  shows "\<exists>r. round_double q = Fin r \<and> 0 \<le> r \<and> r \<le> 2 powi k"
proof -
  define e where "e = max (ilog2 q) (- 1022)"
  define u :: rat where "u = 2 powi (e - 52)"
  define r where "r = of_int (round_half_even (q / u)) * u"
  have upos: "0 < u" by (simp add: u_def)
  have "ilog2 q \<le> k" by (rule ilog2_le[OF assms(1,2)])
  then have ek: "0 \<le> k - (e - 52)" using assms(3) by (simp add: e_def)
  have pw: "(2::rat) powi k = of_int (2 ^ nat (k - (e - 52))) * u"
  proof -
    have "(2::rat) powi k = 2 powi ((k - (e - 52)) + (e - 52))" by simp
    also have "\<dots> = 2 powi (k - (e - 52)) * 2 powi (e - 52)"
      by (subst power_int_add) simp_all
    also have "(2::rat) powi (k - (e - 52)) = 2 ^ nat (k - (e - 52))"
      using ek by (simp add: power_int_def)
    finally show ?thesis by (simp add: u_def)
  qed
  have "q / u \<le> of_int (2 ^ nat (k - (e - 52)))"
    using assms(2) upos unfolding pw by (simp add: field_simps)
  then have "round_half_even (q / u) \<le> 2 ^ nat (k - (e - 52))"
    by (rule round_half_even_le)
  then have "(of_int (round_half_even (q / u)) :: rat) \<le> of_int (2 ^ nat (k - (e - 52)))"
    by (simp only: of_int_le_iff)
  then have rle: "r \<le> 2 powi k"
    unfolding r_def pw using upos by (simp only: mult_le_cancel_right_pos)
  have "0 \<le> q / u" using assms(1) upos by simp
  then have "of_int 0 \<le> q / u" by simp
  then have "0 \<le> round_half_even (q / u)" by (rule round_half_even_ge)
  then have rge: "0 \<le> r" unfolding r_def using upos by simp
  have "(2::rat) powi k < 2 powi 1024"
    using assms(4) by (intro power_int_strict_increasing) auto
  with rle have "\<not> 2 powi 1024 \<le> r" by simp
  then have "round_double q = Fin r"
    using round_double_pos[OF assms(1)] by (simp add: r_def u_def e_def)
  with rle rge show ?thesis by blast
qed

lemma round_double_lower:
  assumes "2 powi k \<le> q" and "- 1022 \<le> k"
  shows "round_double q = PInf \<or> (\<exists>r. round_double q = Fin r \<and> 2 powi k \<le> r)"
proof -
  have qpos: "0 < q"
  proof -
    have "(0::rat) < 2 powi k" by simp
    with assms(1) show ?thesis by linarith
  qed
  define e where "e = max (ilog2 q) (- 1022)"
  define u :: rat where "u = 2 powi (e - 52)"
  define r where "r = of_int (round_half_even (q / u)) * u"
  have upos: "0 < u" by (simp add: u_def)
  have kle: "k \<le> ilog2 q" by (rule ilog2_ge[OF qpos assms(1)])
  then have e: "e = ilog2 q" using assms(2) by (simp add: e_def)
  have pw: "(2::rat) powi e = of_int (2 ^ 52) * u"
  proof -
    have "(2::rat) powi e = 2 powi (52 + (e - 52))" by simp
    also have "\<dots> = 2 powi 52 * 2 powi (e - 52)"
      by (subst power_int_add) simp_all
    finally show ?thesis by (simp add: u_def)
  qed
  have "2 powi e \<le> q" unfolding e by (rule ilog2_bounds(1)[OF qpos])
  then have "of_int (2 ^ 52) \<le> q / u"
    using upos unfolding pw by (simp add: field_simps)
  then have "2 ^ 52 \<le> round_half_even (q / u)"
    by (rule round_half_even_ge)
  then have "(of_int (2 ^ 52) :: rat) \<le> of_int (round_half_even (q / u))"
    by (simp only: of_int_le_iff)
  then have "2 powi e \<le> r"
    unfolding r_def pw using upos by (simp only: mult_le_cancel_right_pos)
  moreover have "(2::rat) powi k \<le> 2 powi e"
    using kle e by (intro power_int_increasing) auto
  ultimately have "2 powi k \<le> r" by linarith
  moreover have "round_double q = (if 2 powi 1024 \<le> r then PInf else Fin r)"
    using round_double_pos[OF qpos] by (simp add: r_def u_def e_def)
  ultimately show ?thesis by auto
qed

lemma round_double_finite:
  assumes "0 < q" and "q \<le> 2 powi k" and "- 1074 \<le> k" and "k \<le> 1023"
  shows "\<exists>r. round_double q = Fin r"
  using round_double_upper[OF assms] by blast

lemma round_double_error:
  assumes "2 powi k \<le> q" and "- 1022 \<le> k" and "round_double q = Fin r"
  shows "\<bar>r - q\<bar> \<le> q / 2 ^ 53"
proof -
  have qpos: "0 < q"
  proof -
    have "(0::rat) < 2 powi k" by simp
    with assms(1) show ?thesis by linarith
  qed
  define e where "e = max (ilog2 q) (- 1022)"
  define u :: rat where "u = 2 powi (e - 52)"
  define r' where "r' = of_int (round_half_even (q / u)) * u"
  have upos: "0 < u" by (simp add: u_def)
  have "k \<le> ilog2 q" by (rule ilog2_ge[OF qpos assms(1)])
  then have e: "e = ilog2 q" using assms(2) by (simp add: e_def)
  have "round_double q = (if 2 powi 1024 \<le> r' then PInf else Fin r')"
    using round_double_pos[OF qpos] by (simp add: r'_def u_def e_def)
  with assms(3) have r: "r = r'" by (auto split: if_splits)
  have "r' - q = (of_int (round_half_even (q / u)) - q / u) * u"
    using upos by (simp add: r'_def field_simps)
  then have "\<bar>r' - q\<bar> = \<bar>of_int (round_half_even (q / u)) - q / u\<bar> * u"
    using upos by (simp add: abs_mult)
  also have "\<dots> \<le> 1 / 2 * u"
    using round_half_even_error[of "q / u"] upos by (simp only: mult_le_cancel_right_pos)
  also have "1 / 2 * u = 2 powi e / 2 ^ 53"
  proof -
    have "(2::rat) powi e = 2 powi (52 + (e - 52))" by simp
    also have "\<dots> = 2 powi 52 * 2 powi (e - 52)"
      by (subst power_int_add) simp_all
    finally show ?thesis by (simp add: u_def)
  qed
  also have "\<dots> \<le> q / 2 ^ 53"
    using ilog2_bounds(1)[OF qpos] unfolding e by (simp add: divide_right_mono)
  finally show ?thesis using r by simp
qed

lemma round_double_one: "round_double 1 = Fin 1"
  by (simp add: round_double_def ilog2_def bit_length_1 round_half_even_def Let_def)

text \<open>
  Rounding a given rational: the exponent \<open>e\<close> and the integer significand \<open>m\<close> are
  supplied and only checked, away from a tie and at a tie.
\<close>

lemma round_double_normal:
  assumes "2 powi e \<le> q" and "q < 2 powi (e + 1)" and "- 1022 \<le> e"
    and "\<bar>q / 2 powi (e - 52) - of_int m\<bar> < 1 / 2"
    and "of_int m * 2 powi (e - 52) < (2::rat) powi 1024"
  shows "round_double q = Fin (of_int m * 2 powi (e - 52))"
proof -
  have "(0::rat) < 2 powi e" by simp
  with assms(1) have qpos: "0 < q" by linarith
  have e: "max (ilog2 q) (- 1022) = e"
    using ilog2_eqI[OF assms(1,2)] assms(3) by simp
  have m: "round_half_even (q / 2 powi (e - 52)) = m"
    by (rule round_half_even_eqI[OF assms(4)])
  show ?thesis
    using round_double_pos[OF qpos] assms(5) by (simp only: e m) simp
qed

lemma round_double_tie:
  assumes "2 powi e \<le> q" and "q < 2 powi (e + 1)" and "- 1022 \<le> e"
    and "q / 2 powi (e - 52) = of_int f + 1 / 2"
    and "m = (if even f then f else f + 1)"
    and "of_int m * 2 powi (e - 52) < (2::rat) powi 1024"
  shows "round_double q = Fin (of_int m * 2 powi (e - 52))"
proof -
  have "(0::rat) < 2 powi e" by simp
  with assms(1) have qpos: "0 < q" by linarith
  have e: "max (ilog2 q) (- 1022) = e"
    using ilog2_eqI[OF assms(1,2)] assms(3) by simp
  have m: "round_half_even (q / 2 powi (e - 52)) = m"
    using round_half_even_tie[OF assms(4)] assms(5) by simp
  show ?thesis
    using round_double_pos[OF qpos] assms(6) by (simp only: e m) simp
qed

lemma rd_2: "round_double 2 = Fin 2"
  using round_double_normal[of 1 2 4503599627370496] by simp

lemma rd_3_2: "round_double (3 / 2) = Fin (3 / 2)"
  using round_double_normal[of 0 "3 / 2" 6755399441055744] by simp

lemma rd_4_3: "round_double (4 / 3) = Fin (6004799503160661 / 4503599627370496)"
  using round_double_normal[of 0 "4 / 3" 6004799503160661] by simp

lemma rd_365_7: "round_double (365 / 7) = Fin (7338454749956389 / 140737488355328)"
  using round_double_normal[of 5 "365 / 7" 7338454749956389] by simp

lemma rd_cr_minus_1:
  "round_double (6004799503160661 / 4503599627370496 - 1) = Fin (1501199875790165 / 4503599627370496)"
  using round_double_normal[of "- 2" "6004799503160661 / 4503599627370496 - 1" 6004799503160660]
  by simp

lemma rd_times_yf:
  "round_double (1501199875790165 / 4503599627370496 * (7338454749956389 / 140737488355328))
     = Fin (611537895829699 / 35184372088832)"
  using round_double_normal[of 4
      "1501199875790165 / 4503599627370496 * (7338454749956389 / 140737488355328)"
      4892303166637592]
  by simp

lemma rd_times_100:
  "round_double (611537895829699 / 35184372088832 * 100) = Fin (3822111848935619 / 2199023255552)"
  using round_double_tie[of 10 "611537895829699 / 35184372088832 * 100"
      7644223697871237 7644223697871238]
  by simp

section \<open>Float operations\<close>

lemma float_eq_int_zero: "float_eq_int x 0 \<longleftrightarrow> is_zero x"
  by (cases x) (simp_all add: float_eq_int_def is_zero_def)

lemma is_positive_nonzero: "is_positive x \<Longrightarrow> \<not> float_eq_int x 0"
  by (cases x) (simp_all add: is_positive_def float_eq_int_def)

lemma fdiv_Fin: "b \<noteq> 0 \<Longrightarrow> fdiv (Fin a) (Fin b) = round_double (a / b)"
  by (simp add: fdiv_def)

lemma fsub_Fin: "fsub (Fin a) (Fin b) = round_double (a - b)"
  by (simp add: fsub_def)

lemma fmul_Fin: "fmul (Fin a) (Fin b) = round_double (a * b)"
  by (simp add: fmul_def)

lemma fmul_zero_Fin: "fmul (Fin 0) (Fin y) = Fin 0"
  by (simp add: fmul_Fin round_double_zero)

lemma truediv_raises_on_zero:
  "float_truediv x (Fin 0) = Inl ZeroDivisionError" "int_truediv a 0 = Inl ZeroDivisionError"
  by (simp_all add: float_truediv_def is_zero_def int_truediv_def)

lemma int_truediv_cases:
  "b \<noteq> 0 \<Longrightarrow> int_truediv a b = Inl OverflowError \<or>
     (\<exists>q. int_truediv a b = Inr (Fin q) \<and> round_double (of_int a / of_int b) = Fin q)"
  by (cases "round_double (of_int a / of_int b)") (simp_all add: int_truediv_def)

lemma int_truediv_Inr:
  assumes "int_truediv a b = Inr x"
  shows "\<exists>q. x = Fin q"
proof (cases "round_double (of_int a / of_int b)")
  case (Fin q)
  with assms have "x = Fin q" by (simp add: int_truediv_def split: if_splits)
  then show ?thesis by blast
qed (use assms in \<open>simp_all add: int_truediv_def split: if_splits\<close>)

lemma days_interval_lower:
  assumes "0 < dt"
  shows "round_double (of_int dt / of_int (24 * 60 * 60)) = PInf \<or>
         (\<exists>d. round_double (of_int dt / of_int (24 * 60 * 60)) = Fin d \<and> 2 powi (- 17) \<le> d)"
proof -
  have "(1::rat) \<le> of_int dt" using assms by linarith
  then have "2 powi (- 17) \<le> (of_int dt :: rat) / of_int (24 * 60 * 60)"
    by (simp add: field_simps power_int_minus)
  from round_double_lower[OF this] show ?thesis by simp
qed

lemma days_interval_bounds:
  assumes "0 < dt" and "dt \<le> 86400 * 2 ^ 1023"
  shows "\<exists>d. round_double (of_int dt / of_int (24 * 60 * 60)) = Fin d \<and>
             2 powi (- 17) \<le> d \<and> d \<le> 2 powi 1023"
proof -
  have pos: "(0::rat) < of_int dt / of_int (24 * 60 * 60)" using assms(1) by simp
  have "(of_int dt :: rat) \<le> of_int (86400 * 2 ^ 1023)"
    using assms(2) by (simp only: of_int_le_iff)
  then have "(of_int dt :: rat) \<le> 86400 * 2 ^ 1023" by simp
  then have "(of_int dt :: rat) / 86400 \<le> 2 ^ 1023" by (simp add: field_simps)
  then have "(of_int dt :: rat) / of_int (24 * 60 * 60) \<le> 2 powi 1023" by simp
  from round_double_upper[OF pos this] days_interval_lower[OF assms(1)]
  show ?thesis by auto
qed

section \<open>Properties of get_pps_at_block\<close>

lemma ratio_bounds:
  fixes A S :: int and B :: rat
  assumes "1 \<le> A" and "of_int A \<le> B" and "1 \<le> S" and "of_int S \<le> B"
  shows "1 / B \<le> of_int A / of_int S" and "of_int A / of_int S \<le> B"
proof -
  have ra: "(1::rat) \<le> of_int A" using assms(1) by linarith
  have rs: "(1::rat) \<le> of_int S" using assms(3) by linarith
  have spos: "(0::rat) < of_int S" using rs by linarith
  have bpos: "0 < B" using ra assms(2) by linarith
  have "(of_int A :: rat) \<le> B * 1" using assms(2) by simp
  also have "\<dots> \<le> B * of_int S" using rs bpos by (intro mult_left_mono) auto
  finally show "(of_int A :: rat) / of_int S \<le> B"
    using spos by (simp add: field_simps)
  have "(of_int S :: rat) \<le> B * 1" using assms(4) by simp
  also have "\<dots> \<le> B * of_int A" using ra bpos by (intro mult_left_mono) auto
  finally show "1 / B \<le> (of_int A :: rat) / of_int S"
    using spos bpos by (simp add: field_simps)
qed

lemma uint256_range:
  fixes a :: "256 word"
  assumes "a \<noteq> 0"
  shows "1 \<le> uint a" and "(of_int (uint a) :: rat) \<le> 2 powi 256"
proof -
  have "uint a \<noteq> 0" using assms by (simp add: uint_0_iff)
  moreover have "0 \<le> uint a" by (rule uint_ge_0)
  ultimately show "1 \<le> uint a" by linarith
  have "uint a \<le> 2 ^ 256" using uint_lt2p[of a] by simp
  then have "(of_int (uint a) :: rat) \<le> of_int (2 ^ 256)" by (simp only: of_int_le_iff)
  also have "(of_int (2 ^ 256) :: rat) = 2 powi 256" by simp
  finally show "(of_int (uint a) :: rat) \<le> 2 powi 256" .
qed

lemma uint256_ratio:
  fixes a s :: "256 word"
  assumes "s \<noteq> 0"
  shows "\<exists>r. round_double (of_int (uint a) / of_int (uint s)) = Fin r \<and> 0 \<le> r \<and>
             \<bar>r - of_int (uint a) / of_int (uint s)\<bar> \<le> of_int (uint a) / of_int (uint s) / 2 ^ 53"
proof (cases "a = 0")
  case True
  then show ?thesis by (simp add: round_double_zero)
next
  case False
  define q :: rat where "q = of_int (uint a) / of_int (uint s)"
  note b = ratio_bounds[OF uint256_range[OF False] uint256_range[OF assms], folded q_def]
  have e: "1 / (2::rat) powi 256 = 2 powi (- 256)"
    by (simp only: power_int_minus inverse_eq_divide)
  have lo: "2 powi (- 256) \<le> q" using b(1) by (simp only: e)
  have "(0::rat) < 2 powi (- 256)" by (rule zero_less_power_int) simp
  with lo have qpos: "0 < q" by linarith
  from round_double_upper[OF qpos b(2)] obtain r where r: "round_double q = Fin r" "0 \<le> r"
    by auto
  from round_double_error[OF lo _ r(1)] r show ?thesis unfolding q_def by simp
qed

lemma get_pps_at_block_Inr:
  "get_pps_at_block contract n = Inr x \<Longrightarrow> \<exists>q. x = Fin q"
  by (auto simp: get_pps_at_block_def split: option.splits if_splits dest: int_truediv_Inr)

lemma get_pps_at_block_no_zero_division:
  "get_pps_at_block contract n \<noteq> Inl ZeroDivisionError"
  by (auto simp: get_pps_at_block_def int_truediv_def uint_0_iff
      split: option.splits if_splits pyfloat.splits)

lemma example_pps_10: "get_pps_at_block example_contract 10 = Inr (Fin 2)"
  by (simp add: get_pps_at_block_def example_contract_def int_truediv_def rd_2)

lemma example_pps_6: "get_pps_at_block example_contract 6 = Inr (Fin (3 / 2))"
  by (simp add: get_pps_at_block_def example_contract_def int_truediv_def rd_3_2)

lemma example_pps_1: "get_pps_at_block example_contract 1 = Inr (Fin (3 / 2))"
  by (simp add: get_pps_at_block_def example_contract_def int_truediv_def rd_3_2)

lemma flat_pps: "get_pps_at_block flat_contract n = Inr (Fin (3 / 2))"
  by (simp add: get_pps_at_block_def flat_contract_def int_truediv_def rd_3_2)

text \<open>
  C4. At every block number at which the two view calls return, \<open>get_pps_at_block\<close> raises
  the \<^verbatim>\<open>RuntimeError\<close> for an undefined price (\<open>TotalSupplyZero\<close>) if and only if
  \<^verbatim>\<open>totalSupply\<close> returned 0, whatever \<^verbatim>\<open>totalAssets\<close> returned; otherwise it returns a
  finite float, the quotient \<open>totalAssets / totalSupply\<close> rounded to binary64, which is
  within a relative error of \<open>2 powi (-53)\<close> of the exact quotient.
\<close>

theorem get_pps_at_block_undefined_price:
  assumes "totalAssets contract n = Some total_assets"
    and "totalSupply contract n = Some total_supply"
  shows "(get_pps_at_block contract n = Inl (TotalSupplyZero n) \<longleftrightarrow> total_supply = 0) \<and>
         (total_supply \<noteq> 0 \<longrightarrow>
            (\<exists>r. get_pps_at_block contract n = Inr (Fin r) \<and>
                 round_double (of_int (uint total_assets) / of_int (uint total_supply)) = Fin r \<and>
                 \<bar>r - of_int (uint total_assets) / of_int (uint total_supply)\<bar>
                   \<le> of_int (uint total_assets) / of_int (uint total_supply) / 2 ^ 53))"
proof (cases "total_supply = 0")
  case True
  then show ?thesis using assms by (simp add: get_pps_at_block_def)
next
  case False
  from uint256_ratio[OF False, of total_assets] obtain r where
    r: "round_double (of_int (uint total_assets) / of_int (uint total_supply)) = Fin r"
       "\<bar>r - of_int (uint total_assets) / of_int (uint total_supply)\<bar>
          \<le> of_int (uint total_assets) / of_int (uint total_supply) / 2 ^ 53"
    by blast
  have nz: "uint total_supply \<noteq> 0" using False by (simp add: uint_0_iff)
  have "int_truediv (uint total_assets) (uint total_supply) = Inr (Fin r)"
    unfolding int_truediv_def using nz r(1) by (simp only: if_False pyfloat.case)
  then have g: "get_pps_at_block contract n = Inr (Fin r)"
    using assms False by (simp add: get_pps_at_block_def)
  have "get_pps_at_block contract n \<noteq> Inl (TotalSupplyZero n)" by (simp only: g) simp
  with False have iff: "get_pps_at_block contract n = Inl (TotalSupplyZero n) \<longleftrightarrow> total_supply = 0"
    by blast
  from g r have "\<exists>r. get_pps_at_block contract n = Inr (Fin r) \<and>
                 round_double (of_int (uint total_assets) / of_int (uint total_supply)) = Fin r \<and>
                 \<bar>r - of_int (uint total_assets) / of_int (uint total_supply)\<bar>
                   \<le> of_int (uint total_assets) / of_int (uint total_supply) / 2 ^ 53"
    by blast
  with iff show ?thesis by blast
qed

theorem get_pps_at_block_undefined_price_witness:
  "totalAssets example_contract 6 = Some 150 \<and> totalSupply example_contract 6 = Some 100 \<and>
   totalSupply (example_contract\<lparr>totalSupply := (\<lambda>n. Some 0)\<rparr>) 6 = Some 0 \<and>
   get_pps_at_block (example_contract\<lparr>totalSupply := (\<lambda>n. Some 0)\<rparr>) 6 = Inl (TotalSupplyZero 6) \<and>
   get_pps_at_block example_contract 6 = Inr (Fin (3 / 2))"
proof -
  have h1: "totalAssets example_contract 6 = Some 150" by (simp add: example_contract_def)
  have h2: "totalSupply example_contract 6 = Some 100" by (simp add: example_contract_def)
  have h3: "totalAssets (example_contract\<lparr>totalSupply := (\<lambda>n. Some 0)\<rparr>) 6 = Some 150"
    by (simp add: example_contract_def)
  have h4: "totalSupply (example_contract\<lparr>totalSupply := (\<lambda>n. Some 0)\<rparr>) 6 = Some 0" by simp
  have nz: "(100 :: 256 word) \<noteq> 0" by simp
  have v: "round_double (of_int (uint (150 :: 256 word)) / of_int (uint (100 :: 256 word))) = Fin (3 / 2)"
    by (simp add: rd_3_2)
  from get_pps_at_block_undefined_price[OF h1 h2] nz v
  have "get_pps_at_block example_contract 6 = Inr (Fin (3 / 2))" by auto
  moreover from get_pps_at_block_undefined_price[OF h3 h4]
  have "get_pps_at_block (example_contract\<lparr>totalSupply := (\<lambda>n. Some 0)\<rparr>) 6 = Inl (TotalSupplyZero 6)"
    by simp
  ultimately show ?thesis using h1 h2 h4 by simp
qed

section \<open>Properties of main\<close>

text \<open>
  The APR computation on its own: with a past sample that is not 0 and an interval of at
  least one second, and of at most \<open>86400 * 2 ^ 1023\<close> seconds so that the quotient of
  line 180 is within the range of a float, every guard is passed and the report holds the
  values below.
\<close>

lemma main_apr_result:
  assumes "\<not> float_eq_int pps_past 0"
    and "0 < latest_ts - past_ts_actual"
    and "latest_ts - past_ts_actual \<le> 86400 * 2 ^ 1023"
  shows "\<exists>d. round_double (of_int (latest_ts - past_ts_actual) / of_int (24 * 60 * 60)) = Fin d \<and>
           2 powi (- 17) \<le> d \<and> d \<le> 2 powi 1023 \<and>
           main_apr pps_now pps_past latest_ts past_ts_actual =
             Inr \<lparr> out_pps_now = pps_now, out_pps_past = pps_past,
                   out_change_ratio = fdiv pps_now pps_past,
                   out_change_pct = fmul (fsub (fdiv pps_now pps_past) (Fin 1)) (Fin 100),
                   out_yearly_factor_7d = fdiv (Fin 365) (Fin 7),
                   out_apr_7d_window =
                     fmul (fmul (fsub (fdiv pps_now pps_past) (Fin 1)) (fdiv (Fin 365) (Fin 7))) (Fin 100),
                   out_dt_seconds = latest_ts - past_ts_actual,
                   out_days_interval = Fin d,
                   out_yearly_factor_real = fdiv (Fin 365) (Fin d),
                   out_apr_real =
                     fmul (fmul (fsub (fdiv pps_now pps_past) (Fin 1)) (fdiv (Fin 365) (Fin d))) (Fin 100) \<rparr>"
proof -
  from days_interval_bounds[OF assms(2,3)] obtain d where
    d: "round_double (of_int (latest_ts - past_ts_actual) / of_int (24 * 60 * 60)) = Fin d"
       "2 powi (- 17) \<le> d" "d \<le> 2 powi 1023" by blast
  have "(0::rat) < 2 powi (- 17)" by (rule zero_less_power_int) simp
  with d(2) have dpos: "0 < d" by linarith
  have nz: "\<not> is_zero pps_past" using assms(1) by (simp add: float_eq_int_zero)
  have t: "int_truediv (latest_ts - past_ts_actual) (24 * 60 * 60) = Inr (Fin d)"
    unfolding int_truediv_def using d(1) by simp
  have "main_apr pps_now pps_past latest_ts past_ts_actual =
             Inr \<lparr> out_pps_now = pps_now, out_pps_past = pps_past,
                   out_change_ratio = fdiv pps_now pps_past,
                   out_change_pct = fmul (fsub (fdiv pps_now pps_past) (Fin 1)) (Fin 100),
                   out_yearly_factor_7d = fdiv (Fin 365) (Fin 7),
                   out_apr_7d_window =
                     fmul (fmul (fsub (fdiv pps_now pps_past) (Fin 1)) (fdiv (Fin 365) (Fin 7))) (Fin 100),
                   out_dt_seconds = latest_ts - past_ts_actual,
                   out_days_interval = Fin d,
                   out_yearly_factor_real = fdiv (Fin 365) (Fin d),
                   out_apr_real =
                     fmul (fmul (fsub (fdiv pps_now pps_past) (Fin 1)) (fdiv (Fin 365) (Fin d))) (Fin 100) \<rparr>"
    unfolding main_apr_def Let_def
    using assms(1,2) nz dpos
    by (simp only: t float_truediv_def LOOKBACK_DAYS_def) (simp add: is_zero_def)
  with d show ?thesis by blast
qed

lemma main_apr_no_zero_division:
  "main_apr pps_now pps_past latest_ts past_ts_actual \<noteq> Inl ZeroDivisionError"
proof (cases "float_eq_int pps_past 0")
  case True
  then show ?thesis by (simp add: main_apr_def)
next
  case False
  then have nz: "\<not> is_zero pps_past" by (simp add: float_eq_int_zero)
  show ?thesis
  proof (cases "latest_ts - past_ts_actual \<le> 0")
    case True
    then show ?thesis using False nz
      by (simp add: main_apr_def float_truediv_def LOOKBACK_DAYS_def is_zero_def Let_def)
  next
    case pos: False
    then have p: "0 < latest_ts - past_ts_actual" by simp
    have "(0::rat) < 2 powi (- 17)" by (rule zero_less_power_int) simp
    with days_interval_lower[OF p] consider
        "round_double (of_int (latest_ts - past_ts_actual) / of_int (24 * 60 * 60)) = PInf"
      | d where "round_double (of_int (latest_ts - past_ts_actual) / of_int (24 * 60 * 60)) = Fin d"
          "0 < d"
      by force
    then show ?thesis
    proof cases
      case 1
      then have "int_truediv (latest_ts - past_ts_actual) (24 * 60 * 60) = Inl OverflowError"
        unfolding int_truediv_def by simp
      then show ?thesis using False nz pos
        unfolding main_apr_def Let_def
        by (simp only: float_truediv_def LOOKBACK_DAYS_def) (simp add: is_zero_def)
    next
      case 2
      then have "int_truediv (latest_ts - past_ts_actual) (24 * 60 * 60) = Inr (Fin d)"
        unfolding int_truediv_def by simp
      then show ?thesis using False nz pos 2(2)
        unfolding main_apr_def Let_def
        by (simp only: float_truediv_def LOOKBACK_DAYS_def) (simp add: is_zero_def)
    qed
  qed
qed

lemma to_datetime_Inr:
  "to_datetime ts = Inr dt \<Longrightarrow> - 62135596800 \<le> ts \<and> ts \<le> 253402300799"
  by (simp add: to_datetime_def split: if_splits)

lemma to_datetime_Inl: "to_datetime ts = Inl e \<Longrightarrow> e = TimestampOutOfRange"
  by (auto simp: to_datetime_def split: if_splits)

lemma main_samples_Inr:
  assumes "main_samples w3 stolas = Inr (pps_now, pps_past, latest_ts, past_ts_actual)"
  shows "- 62135596800 \<le> latest_ts \<and> latest_ts \<le> 253402300799 \<and>
         - 62135596800 \<le> past_ts_actual \<and> past_ts_actual \<le> 253402300799 \<and>
         (\<exists>a b. pps_now = Fin a \<and> pps_past = Fin b)"
  using assms unfolding main_samples_def Let_def
  by (auto split: if_splits option.splits sum.splits
      dest!: to_datetime_Inr get_pps_at_block_Inr)

lemma main_samples_no_zero_division:
  "main_samples w3 stolas \<noteq> Inl ZeroDivisionError"
  unfolding main_samples_def Let_def
  using get_pps_at_block_no_zero_division
  by (auto split: if_splits option.splits sum.splits
      dest!: to_datetime_Inl find_block_by_timestamp_error)

lemma main_Inr:
  assumes "main_samples w3 stolas = Inr (pps_now, pps_past, latest_ts, past_ts_actual)"
  shows "main w3 stolas = main_apr pps_now pps_past latest_ts past_ts_actual"
  using assms by (simp add: main_def)

text \<open>
  In a run of \<open>main\<close> both timestamps have passed \<open>to_datetime\<close> before the APR computation
  starts, so their difference is far below that limit.
\<close>

lemma main_samples_interval:
  assumes "main_samples w3 stolas = Inr (pps_now, pps_past, latest_ts, past_ts_actual)"
  shows "latest_ts - past_ts_actual \<le> 86400 * 2 ^ 1023"
proof -
  from main_samples_Inr[OF assms]
  have "latest_ts \<le> 253402300799" "- 62135596800 \<le> past_ts_actual" by auto
  then have "latest_ts - past_ts_actual \<le> 315537897599" by linarith
  then show ?thesis by simp
qed

lemma example_main_samples:
  "main_samples example_chain example_contract = Inr (Fin 2, Fin (3 / 2), 190, 100)"
proof -
  have f: "find_block_by_timestamp example_chain (- 604610) = ([5, 2, 1], Inr 1)"
    by (simp add: find_block_by_timestamp_def example_chain_def find_loop.simps Let_def)
  have g: "eth_get_block example_chain 1 = Some \<lparr> number = 1, timestamp = 100 \<rparr>"
    "eth_get_block_latest example_chain = Some \<lparr> number = 10, timestamp = 190 \<rparr>"
    "eth_block_number example_chain = Some 10" "is_connected example_chain"
    by (simp_all add: example_chain_def)
  show ?thesis
    unfolding main_samples_def
    by (simp add: g f Let_def to_datetime_def LOOKBACK_SECONDS_def LOOKBACK_DAYS_def
        example_pps_10 example_pps_1)
qed

lemma flat_main_samples:
  "main_samples example_chain flat_contract = Inr (Fin (3 / 2), Fin (3 / 2), 190, 100)"
proof -
  have g: "eth_get_block example_chain 1 = Some \<lparr> number = 1, timestamp = 100 \<rparr>"
    "eth_get_block_latest example_chain = Some \<lparr> number = 10, timestamp = 190 \<rparr>"
    "eth_block_number example_chain = Some 10" "is_connected example_chain"
    by (simp_all add: example_chain_def)
  show ?thesis
    unfolding main_samples_def
    by (simp add: g example_locate_week Let_def to_datetime_def LOOKBACK_SECONDS_def
        LOOKBACK_DAYS_def flat_pps)
qed

text \<open>
  C3. In every run of \<open>main\<close> that reaches the APR computation with two positive PPS
  samples \<open>ratio_now\<close> and \<open>ratio_past\<close> and a positive measured interval
  \<open>latest_ts - past_ts_actual\<close>, the computation returns a report, and with
  \<open>LOOKBACK_DAYS = 7\<close> its two rates are, in float arithmetic,
  \<open>apr_7d_window = (ratio_now / ratio_past - 1) * (365 / LOOKBACK_DAYS) * 100\<close>, in which
  the measured interval does not occur, and
  \<open>apr_real = (ratio_now / ratio_past - 1) * (365 / (elapsed / 86400)) * 100\<close> for
  \<open>elapsed = latest_ts - past_ts_actual\<close>.
\<close>

theorem main_apr_formulas:
  assumes "main_samples w3 stolas = Inr (ratio_now, ratio_past, latest_ts, past_ts_actual)"
    and "is_positive ratio_now" and "is_positive ratio_past"
    and "0 < latest_ts - past_ts_actual"
  shows "\<exists>rep. main w3 stolas = Inr rep \<and> LOOKBACK_DAYS = 7 \<and>
           out_apr_7d_window rep =
             fmul (fmul (fsub (fdiv ratio_now ratio_past) (Fin 1))
                        (fdiv (Fin 365) (Fin (of_int LOOKBACK_DAYS))))
                  (Fin 100) \<and>
           out_apr_real rep =
             fmul (fmul (fsub (fdiv ratio_now ratio_past) (Fin 1))
                        (fdiv (Fin 365)
                              (round_double (of_int (latest_ts - past_ts_actual) / 86400))))
                  (Fin 100)"
proof -
  note nz = is_positive_nonzero[OF assms(3)]
  from main_apr_result[OF nz assms(4) main_samples_interval[OF assms(1)], of ratio_now]
  obtain d where d: "round_double (of_int (latest_ts - past_ts_actual) / of_int (24 * 60 * 60)) = Fin d"
    and m: "main_apr ratio_now ratio_past latest_ts past_ts_actual =
             Inr \<lparr> out_pps_now = ratio_now, out_pps_past = ratio_past,
                   out_change_ratio = fdiv ratio_now ratio_past,
                   out_change_pct = fmul (fsub (fdiv ratio_now ratio_past) (Fin 1)) (Fin 100),
                   out_yearly_factor_7d = fdiv (Fin 365) (Fin 7),
                   out_apr_7d_window =
                     fmul (fmul (fsub (fdiv ratio_now ratio_past) (Fin 1)) (fdiv (Fin 365) (Fin 7))) (Fin 100),
                   out_dt_seconds = latest_ts - past_ts_actual,
                   out_days_interval = Fin d,
                   out_yearly_factor_real = fdiv (Fin 365) (Fin d),
                   out_apr_real =
                     fmul (fmul (fsub (fdiv ratio_now ratio_past) (Fin 1)) (fdiv (Fin 365) (Fin d))) (Fin 100) \<rparr>"
    by blast
  have d': "round_double (of_int (latest_ts - past_ts_actual) / 86400) = Fin d"
    using d by simp
  show ?thesis
    unfolding main_Inr[OF assms(1)] m d' by (simp add: LOOKBACK_DAYS_def)
qed

theorem main_apr_formulas_witness:
  "main_samples example_chain example_contract = Inr (Fin 2, Fin (3 / 2), 190, 100) \<and>
   is_positive (Fin 2) \<and> is_positive (Fin (3 / 2)) \<and> (0::int) < 190 - 100 \<and>
   (\<exists>rep. main example_chain example_contract = Inr rep \<and> LOOKBACK_DAYS = 7 \<and>
      out_apr_7d_window rep =
        fmul (fmul (fsub (fdiv (Fin 2) (Fin (3 / 2))) (Fin 1))
                   (fdiv (Fin 365) (Fin (of_int LOOKBACK_DAYS))))
             (Fin 100) \<and>
      out_apr_real rep =
        fmul (fmul (fsub (fdiv (Fin 2) (Fin (3 / 2))) (Fin 1))
                   (fdiv (Fin 365) (round_double (of_int (190 - 100) / 86400))))
             (Fin 100))"
proof -
  have h2: "is_positive (Fin 2)" and h3: "is_positive (Fin (3 / 2))"
    by (simp_all add: is_positive_def)
  have h4: "(0::int) < 190 - 100" by simp
  from main_apr_formulas[OF example_main_samples h2 h3 h4] example_main_samples h2 h3 h4
  show ?thesis by blast
qed

text \<open>
  C6. In every run of \<open>main\<close> that reaches the APR computation with both PPS samples
  equal to the same positive value \<open>r\<close> and a positive measured interval, the report has
  \<open>apr_7d_window\<close> exactly 0 and \<open>apr_real\<close> exactly 0.
\<close>

theorem main_apr_zero_when_unchanged:
  assumes "main_samples w3 stolas = Inr (r, r, latest_ts, past_ts_actual)"
    and "is_positive r"
    and "0 < latest_ts - past_ts_actual"
  shows "\<exists>rep. main w3 stolas = Inr rep \<and>
           out_apr_7d_window rep = Fin 0 \<and> out_apr_real rep = Fin 0"
proof -
  from main_samples_Inr[OF assms(1)] obtain a where a: "r = Fin a" by blast
  with assms(2) have apos: "0 < a" by (simp add: is_positive_def)
  note nz = is_positive_nonzero[OF assms(2)]
  from main_apr_result[OF nz assms(3) main_samples_interval[OF assms(1)], of r]
  obtain d where d: "2 powi (- 17) \<le> d"
    and m: "main_apr r r latest_ts past_ts_actual =
             Inr \<lparr> out_pps_now = r, out_pps_past = r,
                   out_change_ratio = fdiv r r,
                   out_change_pct = fmul (fsub (fdiv r r) (Fin 1)) (Fin 100),
                   out_yearly_factor_7d = fdiv (Fin 365) (Fin 7),
                   out_apr_7d_window =
                     fmul (fmul (fsub (fdiv r r) (Fin 1)) (fdiv (Fin 365) (Fin 7))) (Fin 100),
                   out_dt_seconds = latest_ts - past_ts_actual,
                   out_days_interval = Fin d,
                   out_yearly_factor_real = fdiv (Fin 365) (Fin d),
                   out_apr_real =
                     fmul (fmul (fsub (fdiv r r) (Fin 1)) (fdiv (Fin 365) (Fin d))) (Fin 100) \<rparr>"
    by blast
  have "fdiv r r = Fin 1" using apos by (simp add: a fdiv_Fin round_double_one)
  then have z: "fsub (fdiv r r) (Fin 1) = Fin 0" by (simp add: fsub_Fin round_double_zero)
  have y7: "fdiv (Fin 365) (Fin 7) = Fin (7338454749956389 / 140737488355328)"
    by (simp add: fdiv_Fin rd_365_7)
  have "(0::rat) < 2 powi (- 17)" by (rule zero_less_power_int) simp
  with d have dpos: "0 < d" by linarith
  have "365 / d \<le> 2 powi 26"
  proof -
    have "1 / d \<le> 1 / 2 powi (- 17)" using d by (intro divide_left_mono) simp_all
    then have "1 / d \<le> 2 ^ 17" by (simp add: power_int_minus)
    then have "365 * (1 / d) \<le> 365 * 2 ^ 17" by (intro mult_left_mono) simp_all
    then show ?thesis by simp
  qed
  moreover have "0 < 365 / d" using dpos by simp
  ultimately obtain y where "round_double (365 / d) = Fin y"
    using round_double_finite[of "365 / d" 26] by auto
  then have yr: "fdiv (Fin 365) (Fin d) = Fin y" using dpos by (simp add: fdiv_Fin)
  show ?thesis
    unfolding main_Inr[OF assms(1)] m by (simp add: z y7 yr fmul_zero_Fin)
qed

theorem main_apr_zero_when_unchanged_witness:
  "main_samples example_chain flat_contract = Inr (Fin (3 / 2), Fin (3 / 2), 190, 100) \<and>
   is_positive (Fin (3 / 2)) \<and> (0::int) < 190 - 100 \<and>
   (\<exists>rep. main example_chain flat_contract = Inr rep \<and>
      out_apr_7d_window rep = Fin 0 \<and> out_apr_real rep = Fin 0)"
proof -
  have h2: "is_positive (Fin (3 / 2))" by (simp add: is_positive_def)
  have h3: "(0::int) < 190 - 100" by simp
  from main_apr_zero_when_unchanged[OF flat_main_samples h2 h3] flat_main_samples h2 h3
  show ?thesis by blast
qed

text \<open>
  C5, as amended. When the measured interval \<open>latest_ts - past_ts_actual\<close> is at most 0,
  the APR computation produces no report: for every pair of PPS samples whose past value
  is not 0 it raises the \<^verbatim>\<open>RuntimeError\<close> for a non-positive interval, and when the past
  value is 0 the check of line 165 comes first and raises the \<^verbatim>\<open>RuntimeError\<close> for
  \<^verbatim>\<open>pps_past == 0\<close>.
\<close>

theorem main_apr_non_positive_interval:
  assumes "latest_ts - past_ts_actual \<le> 0"
  shows "(\<not> float_eq_int pps_past 0 \<longrightarrow>
            main_apr pps_now pps_past latest_ts past_ts_actual = Inl NonPositiveInterval) \<and>
         (float_eq_int pps_past 0 \<longrightarrow>
            main_apr pps_now pps_past latest_ts past_ts_actual = Inl PpsPastZero)"
  using assms
  by (simp add: main_apr_def float_truediv_def float_eq_int_zero Let_def
      LOOKBACK_DAYS_def is_zero_def)

theorem main_apr_non_positive_interval_witness:
  "(100::int) - 100 \<le> 0 \<and> \<not> float_eq_int (Fin (3 / 2)) 0 \<and> float_eq_int (Fin 0) 0 \<and>
   main_apr (Fin 2) (Fin (3 / 2)) 100 100 = Inl NonPositiveInterval \<and>
   main_apr (Fin 2) (Fin 0) 100 100 = Inl PpsPastZero"
proof -
  have h: "(100::int) - 100 \<le> 0" by simp
  have n1: "\<not> float_eq_int (Fin (3 / 2)) 0" and n2: "float_eq_int (Fin 0) 0"
    by (simp_all add: float_eq_int_def)
  from main_apr_non_positive_interval[OF h, of "Fin (3 / 2)" "Fin 2"]
    main_apr_non_positive_interval[OF h, of "Fin 0" "Fin 2"] h n1 n2
  show ?thesis by blast
qed

text \<open>
  Without the restriction to a past sample that is not 0 the statement fails: with a past
  sample of 0 and an interval of 0 seconds the error raised is the one for
  \<^verbatim>\<open>pps_past == 0\<close>, not the one for a non-positive interval. A run of \<open>main\<close> ends so on
  a chain whose only block is the latest one, for a contract without assets.
\<close>

theorem main_apr_non_positive_interval_counterexample:
  "(100::int) - 100 \<le> 0 \<and> main_apr (Fin 2) (Fin 0) 100 100 = Inl PpsPastZero \<and>
   main_apr (Fin 2) (Fin 0) 100 100 \<noteq> Inl NonPositiveInterval \<and>
   main (example_chain\<lparr>eth_block_number := Some 1,
                         eth_get_block_latest := Some \<lparr>number = 1, timestamp = 100\<rparr>\<rparr>)
        (example_contract\<lparr>totalAssets := (\<lambda>n. Some 0)\<rparr>) = Inl PpsPastZero"
proof -
  let ?w3 = "example_chain\<lparr>eth_block_number := Some 1,
                           eth_get_block_latest := Some \<lparr>number = 1, timestamp = 100\<rparr>\<rparr>"
  let ?c = "example_contract\<lparr>totalAssets := (\<lambda>n. Some 0)\<rparr>"
  have f: "find_block_by_timestamp ?w3 (- 604700) = ([1], Inr 1)"
    by (simp add: find_block_by_timestamp_def example_chain_def find_loop.simps Let_def)
  have p: "get_pps_at_block ?c 1 = Inr (Fin 0)"
    by (simp add: get_pps_at_block_def example_contract_def int_truediv_def round_double_zero)
  have g: "eth_get_block ?w3 1 = Some \<lparr>number = 1, timestamp = 100\<rparr>"
    "eth_get_block_latest ?w3 = Some \<lparr>number = 1, timestamp = 100\<rparr>"
    "eth_block_number ?w3 = Some 1" "is_connected ?w3"
    by (simp_all add: example_chain_def)
  have g0: "eth_get_block example_chain 1 = Some \<lparr>number = 1, timestamp = 100\<rparr>"
    "is_connected example_chain"
    by (simp_all add: example_chain_def)
  have s: "main_samples ?w3 ?c = Inr (Fin 0, Fin 0, 100, 100)"
    unfolding main_samples_def
    by (simp add: g g0 f p Let_def to_datetime_def LOOKBACK_SECONDS_def LOOKBACK_DAYS_def)
  have "main ?w3 ?c = Inl PpsPastZero"
    by (simp add: main_def s main_apr_def float_eq_int_def)
  then show ?thesis by (simp add: main_apr_def float_eq_int_def)
qed

text \<open>
  C10. No division of the program divides by zero: \<open>get_pps_at_block\<close>, the APR
  computation and \<open>main\<close> as a whole never raise \<open>ZeroDivisionError\<close>, on any chain, any
  contract and any values, although both division operators raise it on a zero divisor
  (\<open>truediv_raises_on_zero\<close>). The divisor \<^verbatim>\<open>total_supply\<close> is checked against 0 in line 95,
  \<^verbatim>\<open>pps_past\<close> in line 165, \<^verbatim>\<open>days_interval\<close> is positive once \<^verbatim>\<open>dt_seconds > 0\<close> has
  passed line 177, and the divisors \<^verbatim>\<open>LOOKBACK_DAYS\<close> and \<^verbatim>\<open>24 * 60 * 60\<close> are the constants
  7 and 86400.
\<close>

theorem no_zero_division:
  "get_pps_at_block contract n \<noteq> Inl ZeroDivisionError \<and>
   main_apr pps_now pps_past latest_ts past_ts_actual \<noteq> Inl ZeroDivisionError \<and>
   main w3 stolas \<noteq> Inl ZeroDivisionError"
proof -
  have "main w3 stolas \<noteq> Inl ZeroDivisionError"
  proof (cases "main_samples w3 stolas")
    case (Inl e)
    with main_samples_no_zero_division[of w3 stolas] show ?thesis by (simp add: main_def)
  next
    case (Inr s)
    obtain a b l p where "s = (a, b, l, p)" by (cases s) auto
    with Inr main_apr_no_zero_division[of a b l p] show ?thesis by (simp add: main_def)
  qed
  with get_pps_at_block_no_zero_division main_apr_no_zero_division show ?thesis by blast
qed

text \<open>
  C8. On the chain with the blocks 1 to 10 and the timestamps 100, 110, ..., 190, the
  target 145 is located at block 6 (timestamp 150). With 200 assets for 100 shares at
  block 10 the PPS is 2.0, with 150 for 100 at block 6 it is 1.5; the APR computation on
  these two samples gives a ratio change within 0.00001 of 1.33333 and, with the seven-day
  window, an \<open>apr_7d_window\<close> within 0.005 of 1738.10.
\<close>

theorem worked_example:
  "snd (find_block_by_timestamp example_chain 145) = Inr 6 \<and>
   eth_get_block example_chain 6 = Some \<lparr> number = 6, timestamp = 150 \<rparr> \<and>
   get_pps_at_block example_contract 10 = Inr (Fin 2) \<and>
   get_pps_at_block example_contract 6 = Inr (Fin (3 / 2)) \<and>
   (\<exists>rep c a. main_apr (Fin 2) (Fin (3 / 2)) 190 150 = Inr rep \<and>
      out_change_ratio rep = Fin c \<and> \<bar>c - 1.33333\<bar> < 0.00001 \<and>
      out_apr_7d_window rep = Fin a \<and> \<bar>a - 1738.10\<bar> < 0.005)"
proof -
  have nz: "\<not> float_eq_int (Fin (3 / 2)) 0" by (simp add: float_eq_int_def)
  from main_apr_result[OF nz, of 190 150 "Fin 2"] obtain rep where
    rep: "main_apr (Fin 2) (Fin (3 / 2)) 190 150 = Inr rep"
      "out_change_ratio rep = fdiv (Fin 2) (Fin (3 / 2))"
      "out_apr_7d_window rep =
         fmul (fmul (fsub (fdiv (Fin 2) (Fin (3 / 2))) (Fin 1)) (fdiv (Fin 365) (Fin 7))) (Fin 100)"
    by force
  have c: "fdiv (Fin 2) (Fin (3 / 2)) = Fin (6004799503160661 / 4503599627370496)"
    by (simp add: fdiv_Fin rd_4_3)
  have a: "fmul (fmul (fsub (fdiv (Fin 2) (Fin (3 / 2))) (Fin 1)) (fdiv (Fin 365) (Fin 7))) (Fin 100)
            = Fin (3822111848935619 / 2199023255552)"
    unfolding c
    by (simp only: fsub_Fin rd_cr_minus_1 fdiv_Fin rd_365_7 fmul_Fin rd_times_yf rd_times_100)
  have "\<exists>rep c a. main_apr (Fin 2) (Fin (3 / 2)) 190 150 = Inr rep \<and>
      out_change_ratio rep = Fin c \<and> \<bar>c - 1.33333\<bar> < 0.00001 \<and>
      out_apr_7d_window rep = Fin a \<and> \<bar>a - 1738.10\<bar> < 0.005"
  proof (intro exI conjI)
    show "main_apr (Fin 2) (Fin (3 / 2)) 190 150 = Inr rep" by (rule rep(1))
    show "out_change_ratio rep = Fin (6004799503160661 / 4503599627370496)"
      by (simp only: rep(2) c)
    show "out_apr_7d_window rep = Fin (3822111848935619 / 2199023255552)"
      by (simp only: rep(3) a)
    show "\<bar>6004799503160661 / 4503599627370496 - (1.33333::rat)\<bar> < 0.00001" by simp
    show "\<bar>3822111848935619 / 2199023255552 - (1738.10::rat)\<bar> < 0.005" by simp
  qed
  moreover have "eth_get_block example_chain 6 = Some \<lparr> number = 6, timestamp = 150 \<rparr>"
    by (simp add: example_chain_def)
  ultimately show ?thesis
    by (simp add: example_find_145 example_pps_10 example_pps_6)
qed

end
